theory Spec2Isabelle
  imports Main "HOL-Library.Char_ord" "HOL-Library.List_Lexorder"
begin

section \<open>Python strings\<close>

text \<open>
  A Python \<^verbatim>\<open>str\<close> is modelled as a \<^typ>\<open>string\<close>: a list of characters, each
  character standing for one code point below 256. The order on characters is the order
  of their codes and the order on strings is the lexicographic one, as Python compares
  \<^verbatim>\<open>str\<close> values. \<^verbatim>\<open>None\<close> is the \<open>None\<close> of an option type.
\<close>

datatype error = ValueError | OverflowError

definition truthy :: "string option \<Rightarrow> bool" where
  \<comment> \<open>Python truth value of an optional string: \<^verbatim>\<open>None\<close> and \<^verbatim>\<open>""\<close> are false.\<close>
  "truthy v = (case v of None \<Rightarrow> False | Some s \<Rightarrow> s \<noteq> [])"

definition py_or :: "string option \<Rightarrow> string option \<Rightarrow> string option" where
  \<comment> \<open>\<^verbatim>\<open>a or b\<close>\<close>
  "py_or a b = (if truthy a then a else b)"

definition isspace :: "char \<Rightarrow> bool" where
  \<comment> \<open>\<^verbatim>\<open>str.isspace\<close> on one code point below 256; also what \<^verbatim>\<open>\s\<close> matches.\<close>
  "isspace c = ((of_char c :: nat) \<in> {9, 10, 11, 12, 13, 28, 29, 30, 31, 32, 133, 160})"

definition strip :: "string \<Rightarrow> string" where
  \<comment> \<open>\<^verbatim>\<open>s.strip()\<close>\<close>
  "strip s = rev (dropWhile isspace (rev (dropWhile isspace s)))"

fun startswith :: "string \<Rightarrow> string \<Rightarrow> bool" where
  \<comment> \<open>\<^verbatim>\<open>s.startswith(p)\<close>, written \<open>startswith p s\<close>\<close>
  "startswith [] s = True"
| "startswith (p # ps) [] = False"
| "startswith (p # ps) (c # cs) = (p = c \<and> startswith ps cs)"

definition endswith :: "string \<Rightarrow> string \<Rightarrow> bool" where
  \<comment> \<open>\<^verbatim>\<open>s.endswith(p)\<close>, written \<open>endswith p s\<close>\<close>
  "endswith p s = startswith (rev p) (rev s)"

fun py_in :: "string \<Rightarrow> string \<Rightarrow> bool" where
  \<comment> \<open>\<^verbatim>\<open>p in s\<close> for strings: \<open>p\<close> occurs in \<open>s\<close>\<close>
  "py_in p [] = (p = [])"
| "py_in p (c # cs) = (startswith p (c # cs) \<or> py_in p cs)"

function str_replace :: "string \<Rightarrow> string \<Rightarrow> string \<Rightarrow> string" where
  \<comment> \<open>\<^verbatim>\<open>s.replace(old, new)\<close>: the occurrences of \<open>old\<close> found from left to right,
      none overlapping another\<close>
  "str_replace old new s =
     (if old = [] then new @ concat (map (\<lambda>c. c # new) s)
      else if s = [] then []
      else if startswith old s then new @ str_replace old new (drop (length old) s)
      else hd s # str_replace old new (tl s))"
  by pat_completeness auto
termination
  by (relation "measure (\<lambda>(old, new, s). length s)") auto

declare str_replace.simps [simp del]

definition lower_char :: "char \<Rightarrow> char" where
  \<comment> \<open>\<^verbatim>\<open>str.lower\<close> on one code point below 256\<close>
  "lower_char c =
     (let n = (of_char c :: nat)
      in if (65 \<le> n \<and> n \<le> 90) \<or> (192 \<le> n \<and> n \<le> 222 \<and> n \<noteq> 215)
         then char_of (n + 32) else c)"

definition lower :: "string \<Rightarrow> string" where
  "lower s = map lower_char s"

section \<open>The seen-URL store\<close>

text \<open>
  \<^verbatim>\<open>SeenStore\<close> keeps one SQLite table \<^verbatim>\<open>seen(url TEXT PRIMARY KEY, first_seen TEXT)\<close>
  in the file at \<^verbatim>\<open>SEEN_DB_PATH\<close>. Every method that writes commits before it returns, so
  the rows a connection sees are the rows in the file. The table is the list of its rows in
  insertion order; the file is \<open>None\<close> while it holds no table. The clock read by
  \<^verbatim>\<open>add\<close> is an argument.
\<close>

type_synonym seen_table = "(string \<times> string) list"

type_synonym db_file = "seen_table option"

definition SeenStore_init :: "db_file \<Rightarrow> seen_table" where
  \<comment> \<open>\<^verbatim>\<open>sqlite3.connect(path)\<close>, then \<^verbatim>\<open>CREATE TABLE IF NOT EXISTS seen\<close>\<close>
  "SeenStore_init file = (case file of None \<Rightarrow> [] | Some rows \<Rightarrow> rows)"

definition SeenStore_has :: "seen_table \<Rightarrow> string \<Rightarrow> bool" where
  \<comment> \<open>\<^verbatim>\<open>SELECT 1 FROM seen WHERE url = ? LIMIT 1\<close>; \<^verbatim>\<open>fetchone() is not None\<close>\<close>
  "SeenStore_has rows url = (find (\<lambda>r. fst r = url) rows \<noteq> None)"

definition SeenStore_add :: "seen_table \<Rightarrow> string \<Rightarrow> string \<Rightarrow> seen_table" where
  \<comment> \<open>\<^verbatim>\<open>INSERT OR IGNORE INTO seen(url, first_seen) VALUES(?, ?)\<close> with the time \<open>now\<close>:
      a row whose key is already in the table is ignored\<close>
  "SeenStore_add rows url now =
     (if url \<in> fst ` set rows then rows else rows @ [(url, now)])"

definition SeenStore_close :: "seen_table \<Rightarrow> db_file" where
  \<comment> \<open>\<^verbatim>\<open>conn.close()\<close>: the committed rows stay in the file\<close>
  "SeenStore_close rows = Some rows"

definition first_seen :: "seen_table \<Rightarrow> string \<Rightarrow> string option" where
  \<comment> \<open>the \<^verbatim>\<open>first_seen\<close> column of the row of a URL\<close>
  "first_seen rows url = map_option snd (find (\<lambda>r. fst r = url) rows)"

definition entries :: "seen_table \<Rightarrow> string \<Rightarrow> nat" where
  \<comment> \<open>the number of rows of a URL\<close>
  "entries rows url = length (filter (\<lambda>r. fst r = url) rows)"

fun adds :: "seen_table \<Rightarrow> (string \<times> string) list \<Rightarrow> seen_table" where
  \<comment> \<open>a sequence of \<^verbatim>\<open>add\<close> calls, each with its URL and the time of the call\<close>
  "adds rows [] = rows"
| "adds rows ((url, now) # calls) = adds (SeenStore_add rows url now) calls"

section \<open>The content normalizer\<close>

text \<open>
  \<^verbatim>\<open>to_plain_text\<close> calls two functions of the w3lib library and two regular-expression
  substitutions. The repository names no version of the library. \<^verbatim>\<open>remove_tags\<close> strips
  the tags with a regular expression that the versions of the library do not share, so it
  is an argument of the model. All that is used of it is stated where it is used: every
  tag begins with \<^verbatim>\<open><\<close>, so a text with no \<^verbatim>\<open><\<close> comes back as it is.
  \<^verbatim>\<open>replace_escape_chars(text, which_ones, replace_by="")\<close> replaces every string of
  \<^verbatim>\<open>which_ones\<close> in turn by \<^verbatim>\<open>replace_by\<close> with \<^verbatim>\<open>str.replace\<close>; the default of
  \<^verbatim>\<open>replace_by\<close> is the empty string.
\<close>

definition leaves_plain_text :: "(string \<Rightarrow> string) \<Rightarrow> bool" where
  \<comment> \<open>what every \<^verbatim>\<open>remove_tags\<close> does to a text with no \<^verbatim>\<open><\<close>\<close>
  "leaves_plain_text remove_tags = (\<forall>s. CHR ''<'' \<notin> set s \<longrightarrow> remove_tags s = s)"

definition replace_escape_chars :: "string \<Rightarrow> string list \<Rightarrow> string \<Rightarrow> string" where
  \<comment> \<open>\<^verbatim>\<open>replace_escape_chars(text, which_ones, replace_by)\<close>\<close>
  "replace_escape_chars text which_ones replace_by =
     foldl (\<lambda>utext ec. str_replace ec replace_by utext) text which_ones"

definition hspace :: "char \<Rightarrow> bool" where
  \<comment> \<open>the class \<^verbatim>\<open>[ \t]\<close>\<close>
  "hspace c = (c = CHR '' '' \<or> c = CHR 0x09)"

function sub_hspace :: "string \<Rightarrow> string" where
  \<comment> \<open>\<^verbatim>\<open>re.sub(r"[ \t]+", " ", text)\<close>\<close>
  "sub_hspace [] = []"
| "sub_hspace (c # cs) =
     (if hspace c then CHR '' '' # sub_hspace (dropWhile hspace cs) else c # sub_hspace cs)"
  by pat_completeness auto
termination
  by (relation "measure length") (auto simp: le_imp_less_Suc length_dropWhile_le)

function sub_newlines :: "string \<Rightarrow> string" where
  \<comment> \<open>\<^verbatim>\<open>re.sub(r"\n{3,}", "\n\n", text)\<close>\<close>
  "sub_newlines [] = []"
| "sub_newlines (c # cs) =
     (if c = CHR 0x0A \<and> 2 \<le> length (takeWhile (\<lambda>x. x = CHR 0x0A) cs)
      then CHR 0x0A # CHR 0x0A # sub_newlines (dropWhile (\<lambda>x. x = CHR 0x0A) cs)
      else c # sub_newlines cs)"
  by pat_completeness auto
termination
  by (relation "measure length") (auto simp: le_imp_less_Suc length_dropWhile_le)

definition to_plain_text :: "(string \<Rightarrow> string) \<Rightarrow> string \<Rightarrow> string" where
  \<comment> \<open>\<^verbatim>\<open>to_plain_text(html)\<close>, given the \<^verbatim>\<open>remove_tags\<close> of the library\<close>
  "to_plain_text remove_tags html =
     (if html = [] then []
      else (let text = strip (replace_escape_chars (remove_tags html) [''&nbsp;''] []);
                text = sub_hspace text;
                text = sub_newlines text
            in text))"

section \<open>The date parser\<close>

record date =
  year :: nat
  month :: nat
  day :: nat

definition date_less :: "date \<Rightarrow> date \<Rightarrow> bool" where
  \<comment> \<open>\<^verbatim>\<open>a < b\<close> on \<^verbatim>\<open>datetime.date\<close>\<close>
  "date_less a b =
     (year a < year b
      \<or> (year a = year b \<and> (month a < month b \<or> (month a = month b \<and> day a < day b))))"

definition isdigit :: "char \<Rightarrow> bool" where
  \<comment> \<open>what \<^verbatim>\<open>\d\<close> matches among the code points below 256\<close>
  "isdigit c = (48 \<le> (of_char c :: nat) \<and> (of_char c :: nat) \<le> 57)"

definition digit_val :: "char \<Rightarrow> nat" where
  "digit_val c = of_char c - 48"

definition ordinal_suffix :: "string \<Rightarrow> bool" where
  \<comment> \<open>\<^verbatim>\<open>(st|nd|rd|th)\<close> at the start of a string, letters of either case\<close>
  "ordinal_suffix s = (lower (take 2 s) \<in> {''st'', ''nd'', ''rd'', ''th''})"

function strip_ordinals :: "string \<Rightarrow> string" where
  \<comment> \<open>\<^verbatim>\<open>re.sub(r"(\d{1,2})(st|nd|rd|th)", r"\1", s, flags=re.IGNORECASE)\<close>: two digits
      are tried before one\<close>
  "strip_ordinals [] = []"
| "strip_ordinals (c # cs) =
     (if isdigit c \<and> cs \<noteq> [] \<and> isdigit (hd cs) \<and> ordinal_suffix (tl cs)
      then c # hd cs # strip_ordinals (drop 3 cs)
      else if isdigit c \<and> ordinal_suffix cs
      then c # strip_ordinals (drop 2 cs)
      else c # strip_ordinals cs)"
  by pat_completeness auto
termination
  by (relation "measure length") auto

text \<open>
  \<^verbatim>\<open>datetime.strptime\<close> turns the format into a regular expression, matches it at the
  start of the string, and raises \<^verbatim>\<open>ValueError\<close> when there is no match, when the match
  leaves text over, or when the fields are no date. A regular expression is modelled by
  the list of the ways it matches a prefix of a string, in the order in which the
  matcher tries them, each with the value read and the text left.
\<close>

type_synonym 'a rx = "string \<Rightarrow> ('a \<times> string) list"

definition rx_d :: "nat rx" where
  \<comment> \<open>\<^verbatim>\<open>%d\<close>: \<^verbatim>\<open>(3[0-1]|[1-2]\d|0[1-9]|[1-9]| [1-9])\<close>\<close>
  "rx_d s =
     (case s of
        a # b # r \<Rightarrow>
          (if a = CHR ''3'' \<and> (b = CHR ''0'' \<or> b = CHR ''1'')
           then [(30 + digit_val b, r)] else []) @
          (if (a = CHR ''1'' \<or> a = CHR ''2'') \<and> isdigit b
           then [(10 * digit_val a + digit_val b, r)] else []) @
          (if a = CHR ''0'' \<and> isdigit b \<and> b \<noteq> CHR ''0''
           then [(digit_val b, r)] else [])
      | _ \<Rightarrow> []) @
     (case s of
        a # r \<Rightarrow> if isdigit a \<and> a \<noteq> CHR ''0'' then [(digit_val a, r)] else []
      | [] \<Rightarrow> []) @
     (case s of
        a # b # r \<Rightarrow>
          if a = CHR '' '' \<and> isdigit b \<and> b \<noteq> CHR ''0'' then [(digit_val b, r)] else []
      | _ \<Rightarrow> [])"

definition a_month :: "string list" where
  "a_month = [''jan'', ''feb'', ''mar'', ''apr'', ''may'', ''jun'',
              ''jul'', ''aug'', ''sep'', ''oct'', ''nov'', ''dec'']"

definition f_month :: "string list" where
  "f_month = [''january'', ''february'', ''march'', ''april'', ''may'', ''june'',
              ''july'', ''august'', ''september'', ''october'', ''november'', ''december'']"

fun index_of :: "string \<Rightarrow> string list \<Rightarrow> nat" where
  "index_of x [] = 0"
| "index_of x (y # ys) = (if x = y then 0 else Suc (index_of x ys))"

definition rx_month :: "string list \<Rightarrow> nat rx" where
  \<comment> \<open>\<^verbatim>\<open>%b\<close> and \<^verbatim>\<open>%B\<close>: the names as alternatives, longest first, letters of either
      case; the month is the place of the name in the list\<close>
  "rx_month names s =
     concat (map (\<lambda>name. if lower (take (length name) s) = name
                           then [(Suc (index_of name names), drop (length name) s)] else [])
                 (sort_key (\<lambda>name. - int (length name)) names))"

definition rx_Y :: "nat rx" where
  \<comment> \<open>\<^verbatim>\<open>%Y\<close>: \<^verbatim>\<open>(\d\d\d\d)\<close>\<close>
  "rx_Y s =
     (case s of
        a # b # c # d # r \<Rightarrow>
          if isdigit a \<and> isdigit b \<and> isdigit c \<and> isdigit d
          then [(1000 * digit_val a + 100 * digit_val b + 10 * digit_val c + digit_val d, r)]
          else []
      | _ \<Rightarrow> [])"

definition rx_space :: "unit rx" where
  \<comment> \<open>\<^verbatim>\<open>\s+\<close>, the longest run first\<close>
  "rx_space s = map (\<lambda>k. ((), drop k s)) (rev [1 ..< Suc (length (takeWhile isspace s))])"

datatype directive = Dir_d | Dir_b | Dir_B | Dir_Y | Dir_space

definition rx_directive :: "directive \<Rightarrow> date \<Rightarrow> date rx" where
  "rx_directive dir f s =
     (case dir of
        Dir_d \<Rightarrow> map (\<lambda>(v, r). (f\<lparr>day := v\<rparr>, r)) (rx_d s)
      | Dir_b \<Rightarrow> map (\<lambda>(v, r). (f\<lparr>month := v\<rparr>, r)) (rx_month a_month s)
      | Dir_B \<Rightarrow> map (\<lambda>(v, r). (f\<lparr>month := v\<rparr>, r)) (rx_month f_month s)
      | Dir_Y \<Rightarrow> map (\<lambda>(v, r). (f\<lparr>year := v\<rparr>, r)) (rx_Y s)
      | Dir_space \<Rightarrow> map (\<lambda>(v, r). (f, r)) (rx_space s))"

fun rx_format :: "directive list \<Rightarrow> date \<Rightarrow> date rx" where
  "rx_format [] f s = [(f, s)]"
| "rx_format (dir # dirs) f s =
     concat (map (\<lambda>(f', r). rx_format dirs f' r) (rx_directive dir f s))"

definition is_leap :: "nat \<Rightarrow> bool" where
  "is_leap y = (y mod 4 = 0 \<and> (y mod 100 \<noteq> 0 \<or> y mod 400 = 0))"

definition days_in_month :: "nat \<Rightarrow> nat \<Rightarrow> nat" where
  "days_in_month y m =
     (if m = 2 then (if is_leap y then 29 else 28)
      else if m = 4 \<or> m = 6 \<or> m = 9 \<or> m = 11 then 30 else 31)"

definition valid_date :: "date \<Rightarrow> bool" where
  \<comment> \<open>the fields \<^verbatim>\<open>datetime.date\<close> accepts\<close>
  "valid_date d =
     (1 \<le> year d \<and> year d \<le> 9999 \<and> 1 \<le> month d \<and> month d \<le> 12
      \<and> 1 \<le> day d \<and> day d \<le> days_in_month (year d) (month d))"

definition strptime :: "string \<Rightarrow> directive list \<Rightarrow> date option" where
  \<comment> \<open>\<^verbatim>\<open>datetime.strptime(s, fmt).date()\<close>; \<open>None\<close> is \<^verbatim>\<open>ValueError\<close>. The fields
      start from 1900-01-01.\<close>
  "strptime s fmt =
     (case rx_format fmt \<lparr>year = 1900, month = 1, day = 1\<rparr> s of
        [] \<Rightarrow> None
      | (f, rest) # _ \<Rightarrow> if rest = [] \<and> valid_date f then Some f else None)"

definition fmts :: "directive list list" where
  \<comment> \<open>\<^verbatim>\<open>"%d %b %Y"\<close>, \<^verbatim>\<open>"%d %B %Y"\<close>, \<^verbatim>\<open>"%b %d %Y"\<close>, \<^verbatim>\<open>"%B %d %Y"\<close>\<close>
  "fmts = [[Dir_d, Dir_space, Dir_b, Dir_space, Dir_Y],
           [Dir_d, Dir_space, Dir_B, Dir_space, Dir_Y],
           [Dir_b, Dir_space, Dir_d, Dir_space, Dir_Y],
           [Dir_B, Dir_space, Dir_d, Dir_space, Dir_Y]]"

fun try_fmts :: "string \<Rightarrow> directive list list \<Rightarrow> date option" where
  \<comment> \<open>the loop over \<^verbatim>\<open>fmts\<close>: the first format that parses\<close>
  "try_fmts s [] = None"
| "try_fmts s (fmt # rest) =
     (case strptime s fmt of Some d \<Rightarrow> Some d | None \<Rightarrow> try_fmts s rest)"

definition parse_date :: "string \<Rightarrow> date option" where
  "parse_date date_str =
     (if date_str = [] then None
      else (let s = str_replace '','' [] (strip_ordinals (strip date_str))
            in try_fmts s fmts))"

definition dec2 :: "nat \<Rightarrow> string" where
  "dec2 n = [char_of (48 + n div 10 mod 10), char_of (48 + n mod 10)]"

definition isoformat :: "date \<Rightarrow> string" where
  \<comment> \<open>\<^verbatim>\<open>d.isoformat()\<close>: \<^verbatim>\<open>"%04d-%02d-%02d"\<close>\<close>
  "isoformat d = dec2 (year d div 100) @ dec2 (year d) @ ''-'' @ dec2 (month d) @ ''-'' @ dec2 (day d)"

section \<open>The link resolver\<close>

text \<open>
  \<^verbatim>\<open>urllib.parse.urljoin\<close> and the \<^verbatim>\<open>netloc\<close> of \<^verbatim>\<open>urllib.parse.urlparse\<close> belong to
  the standard library and are arguments of the model, as are \<^verbatim>\<open>remove_tags\<close>, the
  language detector and the clock. \<open>urljoin\<close> is \<open>None\<close> where the function raises
  \<^verbatim>\<open>ValueError\<close>, as it does on \<^verbatim>\<open>https://[x\<close>; \<open>netloc\<close> is \<open>None\<close> where
  \<^verbatim>\<open>urlparse\<close> raises; \<open>detect\<close> is \<open>None\<close> when the import of the detector failed, and
  the detector gives \<open>None\<close> where it raises.
\<close>

record env =
  urljoin :: "string \<Rightarrow> string \<Rightarrow> string option"
  netloc :: "string \<Rightarrow> string option"
  remove_tags :: "string \<Rightarrow> string"
  detect :: "(string \<Rightarrow> string option) option"
  utcnow :: string

definition TM_DOMAINS :: "string list" where
  "TM_DOMAINS = [''themanufacturer.com'', ''www.themanufacturer.com'']"

definition absolutize :: "env \<Rightarrow> string \<Rightarrow> string \<Rightarrow> error + string option" where
  \<comment> \<open>\<open>Inr None\<close> is the \<^verbatim>\<open>None\<close> returned for an empty href; \<open>Inl\<close> is the error that
      \<^verbatim>\<open>urljoin\<close> raises, which nothing catches\<close>
  "absolutize e base_url href =
     (if href = [] then Inr None
      else (case urljoin e base_url href of
              None \<Rightarrow> Inl ValueError
            | Some u \<Rightarrow> Inr (Some u)))"

definition is_internal :: "env \<Rightarrow> string \<Rightarrow> bool" where
  "is_internal e u =
     (case netloc e u of
        None \<Rightarrow> False
      | Some n \<Rightarrow> list_ex (\<lambda>d. endswith d (lower n)) TM_DOMAINS)"

section \<open>The spider\<close>

definition int_space :: "char \<Rightarrow> bool" where
  \<comment> \<open>the characters \<^verbatim>\<open>int\<close> skips around a number, among the code points below 256;
      unlike \<^verbatim>\<open>str.strip\<close> it keeps the separators 28 to 31\<close>
  "int_space c = ((of_char c :: nat) \<in> {9, 10, 11, 12, 13, 32, 133, 160})"

definition int_literal :: "string \<Rightarrow> bool" where
  \<comment> \<open>digits, with single underscores between them; at most 4300 digits\<close>
  "int_literal b =
     (b \<noteq> [] \<and> isdigit (hd b) \<and> isdigit (last b)
      \<and> list_all (\<lambda>c. isdigit c \<or> c = CHR ''_'') b
      \<and> \<not> py_in ''__'' b
      \<and> length (filter isdigit b) \<le> 4300)"

definition py_int :: "string \<Rightarrow> int option" where
  \<comment> \<open>\<^verbatim>\<open>int(s)\<close> for a string; \<open>None\<close> is \<^verbatim>\<open>ValueError\<close>\<close>
  "py_int s =
     (let t = rev (dropWhile int_space (rev (dropWhile int_space s)));
          neg = (t \<noteq> [] \<and> hd t = CHR ''-'');
          b = (if t \<noteq> [] \<and> (hd t = CHR ''-'' \<or> hd t = CHR ''+'') then tl t else t);
          v = int (foldl (\<lambda>a c. 10 * a + digit_val c) 0 (filter isdigit b))
      in if int_literal b then Some (if neg then - v else v) else None)"

definition date_new :: "int \<Rightarrow> nat \<Rightarrow> nat \<Rightarrow> error + date" where
  \<comment> \<open>\<^verbatim>\<open>dt.date(y, m, d)\<close>: a year that is no C \<^verbatim>\<open>int\<close> is an overflow, any other
      year outside 1 to 9999 a value error\<close>
  "date_new y m d =
     (if y < - 2147483648 \<or> 2147483647 < y then Inl OverflowError
      else if 0 \<le> y \<and> valid_date \<lparr>year = nat y, month = m, day = d\<rparr>
      then Inr \<lparr>year = nat y, month = m, day = d\<rparr> else Inl ValueError)"

definition spider_init :: "(string \<Rightarrow> error + date) \<Rightarrow> string option \<Rightarrow> string option \<Rightarrow> error + date" where
  \<comment> \<open>\<^verbatim>\<open>TMSectionsSpider.__init__\<close>: the value of \<^verbatim>\<open>self.cutoff_date\<close>. Spider arguments
      are strings or absent; \<^verbatim>\<open>dt.date.fromisoformat\<close> is an argument.\<close>
  "spider_init fromisoformat cutoff cutoff_year =
     (if truthy cutoff then (case cutoff of Some c \<Rightarrow> fromisoformat c | None \<Rightarrow> Inl ValueError)
      else if truthy cutoff_year
      then (case cutoff_year of
              Some y \<Rightarrow> (case py_int y of Some n \<Rightarrow> date_new n 1 1 | None \<Rightarrow> Inl ValueError)
            | None \<Rightarrow> Inl ValueError)
      else Inr \<lparr>year = 2025, month = 1, day = 1\<rparr>)"

text \<open>
  A response is what the callbacks read of it: its URL, the two entries of its
  \<^verbatim>\<open>meta\<close>, for each CSS selector the list of the elements selected, in document order,
  and its two methods that build URLs. \<open>response_urljoin\<close> is \<open>None\<close> where
  \<^verbatim>\<open>response.urljoin\<close> raises \<^verbatim>\<open>ValueError\<close>. \<open>follow_raises\<close> holds for the hrefs on
  which \<^verbatim>\<open>response.follow\<close> raises \<^verbatim>\<open>ValueError\<close> in place of making a request, as it
  does when the joined URL has no \<^verbatim>\<open>://\<close> in it. Neither callback catches these errors.
  An element has the string that \<^verbatim>\<open>get()\<close> returns for it and the values of
  \<^verbatim>\<open>a::attr(href)\<close> selected inside it.
\<close>

record element =
  get :: string
  hrefs :: "string list"

record response =
  url :: string
  meta_section_url :: "string option"
  meta_article_count :: "int option"
  css :: "string \<Rightarrow> element list"
  response_urljoin :: "string \<Rightarrow> string option"
  follow_raises :: "string \<Rightarrow> bool"

definition css_get :: "response \<Rightarrow> string \<Rightarrow> string option" where
  \<comment> \<open>\<^verbatim>\<open>response.css(sel).get()\<close>\<close>
  "css_get r sel = (case css r sel of [] \<Rightarrow> None | e # _ \<Rightarrow> Some (get e))"

definition css_getall :: "response \<Rightarrow> string \<Rightarrow> string list" where
  \<comment> \<open>\<^verbatim>\<open>response.css(sel).getall()\<close>\<close>
  "css_getall r sel = map get (css r sel)"

definition apostrophe :: char where
  \<comment> \<open>the quote of the selectors \<^verbatim>\<open>a[href*='/articles/']\<close> and \<^verbatim>\<open>link[rel='next']\<close>\<close>
  "apostrophe = CHR 0x27"

datatype callback = parse_section_callback | parse_article_callback

text \<open>
  A request is the call \<^verbatim>\<open>response.follow(href, callback=..., meta=...)\<close> that made it.
  A generator that raises has yielded what it yielded before: the result of a callback is
  the list of what it yields and the error that ended it, if one did.
\<close>

record request =
  follow :: string
  callback :: callback
  section_url :: "string option"
  article_count :: int

definition py_slice_to :: "int \<Rightarrow> 'a list \<Rightarrow> 'a list" where
  \<comment> \<open>\<^verbatim>\<open>xs[:n]\<close>: a negative \<open>n\<close> counts from the end\<close>
  "py_slice_to n xs = (if 0 \<le> n then take (nat n) xs else take (length xs - nat (- n)) xs)"

definition section_hrefs :: "response \<Rightarrow> string list" where
  \<comment> \<open>what the three \<^verbatim>\<open>hrefs.update(...)\<close> calls put in the set \<^verbatim>\<open>hrefs\<close>\<close>
  "section_hrefs r =
     css_getall r ''h3.item-title a::attr(href)''
     @ css_getall r ''div.item-excerpt a::attr(href)''
     @ css_getall r (''a[href*='' @ [apostrophe] @ ''/articles/'' @ [apostrophe]
                     @ '']::attr(href)'')"

fun join_all :: "(string \<Rightarrow> string option) \<Rightarrow> string list \<Rightarrow> string list option" where
  \<comment> \<open>a function that may raise, applied to each string: \<open>None\<close> when one call raises\<close>
  "join_all f [] = Some []"
| "join_all f (h # hs) =
     (case f h of
        None \<Rightarrow> None
      | Some u \<Rightarrow> (case join_all f hs of None \<Rightarrow> None | Some us \<Rightarrow> Some (u # us)))"

definition article_links :: "response \<Rightarrow> error + string list" where
  \<comment> \<open>\<^verbatim>\<open>sorted({response.urljoin(h) for h in hrefs if "/articles/" in h})\<close>\<close>
  "article_links r =
     (case join_all (response_urljoin r) (filter (py_in ''/articles/'') (section_hrefs r)) of
        None \<Rightarrow> Inl ValueError
      | Some us \<Rightarrow> Inr (sort (remdups us)))"

definition section_count :: "response \<Rightarrow> int" where
  \<comment> \<open>\<^verbatim>\<open>response.meta.get("article_count", 0)\<close>\<close>
  "section_count r = (case meta_article_count r of None \<Rightarrow> 0 | Some n \<Rightarrow> n)"

fun dispatch :: "response \<Rightarrow> int \<Rightarrow> string list \<Rightarrow> request list \<times> int \<times> error option" where
  \<comment> \<open>the loop over \<^verbatim>\<open>new_articles[:remaining]\<close>: the requests yielded,
      \<^verbatim>\<open>article_count\<close> after it, and the error of the first \<^verbatim>\<open>response.follow\<close> that
      raises, which ends the loop\<close>
  "dispatch r n [] = ([], n, None)"
| "dispatch r n (href # rest) =
     (if follow_raises r href then ([], n, Some ValueError)
      else (let (reqs, n', err) = dispatch r (n + 1) rest
            in (\<lparr>follow = href, callback = parse_article_callback,
                 section_url = meta_section_url r, article_count = n + 1\<rparr> # reqs, n', err)))"

definition next_page :: "response \<Rightarrow> string option" where
  "next_page r =
     py_or (py_or (css_get r ''a.next.page-numbers::attr(href)'')
                  (css_get r ''a.next::attr(href)''))
           (css_get r (''link[rel='' @ [apostrophe] @ ''next'' @ [apostrophe]
                       @ '']::attr(href)''))"

definition parse_section :: "seen_table \<Rightarrow> response \<Rightarrow> request list \<times> error option" where
  \<comment> \<open>the requests the generator yields, in order, and the error that ends it, if any\<close>
  "parse_section seen r =
     (case article_links r of
        Inl err \<Rightarrow> ([], Some err)
      | Inr links \<Rightarrow>
          (let new_articles = filter (\<lambda>href. \<not> SeenStore_has seen href) links;
               remaining = 5 - section_count r;
               (reqs, count, err) =
                  dispatch r (section_count r) (py_slice_to remaining new_articles)
           in if err \<noteq> None then (reqs, err)
              else if count < 5 \<and> truthy (next_page r)
              then (case next_page r of
                      Some n \<Rightarrow>
                        if follow_raises r n then (reqs, Some ValueError)
                        else (reqs @ [\<lparr>follow = n, callback = parse_section_callback,
                                        section_url = meta_section_url r,
                                        article_count = count\<rparr>], None)
                    | None \<Rightarrow> (reqs, None))
              else (reqs, None)))"

record item =
  item_url :: string
  item_section :: "string option"
  item_title :: "string option"
  item_date :: "string option"
  item_date_iso :: "string option"
  item_company :: "string option"
  item_text :: string
  item_language :: "string option"
  item_tags :: "string list option"
  item_internal_links :: "string list option"

text \<open>
  What \<^verbatim>\<open>parse_article\<close> does with one response: the selectors it evaluates, in
  order, the items it yields, the table of the store after it, and the error that ends
  it, if one does.
\<close>

record outcome =
  queried :: "string list"
  yielded :: "item list"
  store :: seen_table
  raised :: "error option"

fun join :: "string \<Rightarrow> string list \<Rightarrow> string" where
  \<comment> \<open>\<^verbatim>\<open>sep.join(xs)\<close>\<close>
  "join sep [] = []"
| "join sep [x] = x"
| "join sep (x # y # ys) = x @ sep @ join sep (y # ys)"

definition stripped_texts :: "string list \<Rightarrow> string list" where
  \<comment> \<open>\<^verbatim>\<open>[t.strip() for t in texts if t.strip()]\<close>\<close>
  "stripped_texts texts = filter (\<lambda>t. t \<noteq> []) (map strip texts)"

definition body_selectors :: "string list" where
  "body_selectors = [''div.single-article-content'', ''div.entry-content'',
                     ''div.article-content'', ''article'']"

fun find_body :: "response \<Rightarrow> string list \<Rightarrow> (string \<times> element list) option \<times> string list" where
  \<comment> \<open>the loop over \<^verbatim>\<open>body_selectors\<close>: \<^verbatim>\<open>raw_html\<close> and \<^verbatim>\<open>body\<close> at the
      \<^verbatim>\<open>break\<close>, or \<open>None\<close> when the loop ends with \<^verbatim>\<open>raw_html\<close> empty; and the
      selectors tried\<close>
  "find_body r [] = (None, [])"
| "find_body r (sel # sels) =
     (let body = css r sel
      in if body \<noteq> [] \<and> get (hd body) \<noteq> [] then (Some (get (hd body), body), [sel])
         else (let (found, tried) = find_body r sels in (found, sel # tried)))"

definition located_body_hrefs :: "response \<Rightarrow> string list" where
  \<comment> \<open>\<^verbatim>\<open>body.css("a::attr(href)").getall()\<close>: \<^verbatim>\<open>body\<close> is the selection at the
      \<^verbatim>\<open>break\<close>, all its elements, or the response itself when no selector gave HTML\<close>
  "located_body_hrefs r =
     (case fst (find_body r body_selectors) of
        Some (raw_html, body) \<Rightarrow> concat (map hrefs body)
      | None \<Rightarrow> css_getall r ''a::attr(href)'')"

fun internal_of :: "env \<Rightarrow> string \<Rightarrow> string list \<Rightarrow> error + string list" where
  \<comment> \<open>the loop that fills \<^verbatim>\<open>internal_links\<close>; it ends where \<^verbatim>\<open>absolutize\<close> raises\<close>
  "internal_of e base [] = Inr []"
| "internal_of e base (a # rest) =
     (case absolutize e base a of
        Inl err \<Rightarrow> Inl err
      | Inr u \<Rightarrow>
          (case internal_of e base rest of
             Inl err \<Rightarrow> Inl err
           | Inr us \<Rightarrow>
               Inr (case u of
                      Some v \<Rightarrow> if v \<noteq> [] \<and> is_internal e v then v # us else us
                    | None \<Rightarrow> us)))"

fun keep_first :: "string set \<Rightarrow> string list \<Rightarrow> string list" where
  \<comment> \<open>\<^verbatim>\<open>[u for u in internal_links if not (u in seen_u or seen_u.add(u))]\<close>\<close>
  "keep_first seen_u [] = []"
| "keep_first seen_u (u # us) =
     (if u \<in> seen_u then keep_first seen_u us else u # keep_first (insert u seen_u) us)"

definition parse_article :: "env \<Rightarrow> date \<Rightarrow> seen_table \<Rightarrow> response \<Rightarrow> outcome" where
  "parse_article e cutoff_date seen r =
     (let su = meta_section_url r;
          span = css_get r ''h1.page-title span::text'';
          title = py_or span (css_get r ''h1.page-title::text'');
          title = (if truthy title then map_option strip title else None);
          q_title = ''h1.page-title span::text''
                    # (if truthy span then [] else [''h1.page-title::text'']);
          date_str = css_get r ''#single-article-date::text'';
          date_str = (if truthy date_str then map_option strip date_str else None);
          parsed_date = (case date_str of
                           Some d \<Rightarrow> if d \<noteq> [] then parse_date d else None
                         | None \<Rightarrow> None);
          q_date = [''#single-article-date::text'']
      in if (case parsed_date of Some d \<Rightarrow> date_less d cutoff_date | None \<Rightarrow> False)
         then \<lparr>queried = q_title @ q_date, yielded = [], store = seen, raised = None\<rparr>
         else
           (let companies = stripped_texts (css_getall r ''div.article-company a::text'');
                company = (if companies \<noteq> [] then Some (join '', '' companies) else None);
                (found, tried) = find_body r body_selectors;
                raw_html = (case found of
                              Some (html, body) \<Rightarrow> html
                            | None \<Rightarrow> concat (css_getall r ''p, li, h2, h3''));
                q_body = tried @ (if found = None then [''p, li, h2, h3''] else []);
                text = to_plain_text (remove_tags e) raw_html;
                tags = stripped_texts (css_getall r ''div.post-terms ul.post-tags a::text'');
                q_all = q_title @ q_date @ [''div.article-company a::text''] @ q_body
                        @ [''div.post-terms ul.post-tags a::text'', ''a::attr(href)'']
            in case internal_of e (url r) (located_body_hrefs r) of
                 Inl err \<Rightarrow> \<lparr>queried = q_all, yielded = [], store = seen, raised = Some err\<rparr>
               | Inr links \<Rightarrow>
                   (let internal_links = keep_first {} links;
                        language = (case detect e of
                                      Some f \<Rightarrow> if text \<noteq> [] then f text else None
                                    | None \<Rightarrow> None);
                        it = \<lparr>item_url = url r,
                              item_section = su,
                              item_title = title,
                              item_date = date_str,
                              item_date_iso = map_option isoformat parsed_date,
                              item_company = company,
                              item_text = text,
                              item_language = language,
                              item_tags = (if tags \<noteq> [] then Some tags else None),
                              item_internal_links =
                                (if internal_links \<noteq> [] then Some internal_links else None)\<rparr>
                    in \<lparr>queried = q_all, yielded = [it],
                        store = SeenStore_add seen (url r) (utcnow e), raised = None\<rparr>)))"

section \<open>Normal forms of text\<close>

text \<open>
  For the proofs about \<^verbatim>\<open>to_plain_text\<close>: \<open>delete_nbsp\<close> is the call of
  \<^verbatim>\<open>replace_escape_chars\<close> that \<^verbatim>\<open>to_plain_text\<close> makes, and the three predicates say
  that \<^verbatim>\<open>strip\<close> and the two substitutions leave a string as it is.
\<close>

abbreviation nl :: char where "nl \<equiv> CHR 0x0A"

definition delete_nbsp :: "string \<Rightarrow> string" where
  "delete_nbsp s = str_replace ''&nbsp;'' [] s"

definition trimmed :: "string \<Rightarrow> bool" where
  "trimmed s = (s = [] \<or> (\<not> isspace (hd s) \<and> \<not> isspace (last s)))"

fun hspace_normal :: "string \<Rightarrow> bool" where
  "hspace_normal [] = True"
| "hspace_normal (c # cs) =
     ((hspace c \<longrightarrow> c = CHR '' '' \<and> (cs = [] \<or> \<not> hspace (hd cs))) \<and> hspace_normal cs)"

fun newline_normal :: "string \<Rightarrow> bool" where
  "newline_normal [] = True"
| "newline_normal (c # cs) =
     (\<not> (c = nl \<and> 2 \<le> length (takeWhile (\<lambda>x. x = nl) cs)) \<and> newline_normal cs)"

section \<open>The requests for a list of articles\<close>

text \<open>
  For the statements about \<^verbatim>\<open>parse_section\<close>: the requests that its loop over the
  admitted links yields when \<^verbatim>\<open>response.follow\<close> raises on none of them. There is one
  for each link, in order, to the article callback, with the section URL of the page; the
  first carries the count received plus one, and each next one a count one higher.
\<close>

definition article_requests :: "response \<Rightarrow> int \<Rightarrow> string list \<Rightarrow> request list" where
  "article_requests r n hs =
     map (\<lambda>i. \<lparr>follow = hs ! i, callback = parse_article_callback,
                section_url = meta_section_url r, article_count = n + 1 + int i\<rparr>)
         [0 ..< length hs]"

section \<open>Example inputs\<close>

text \<open>
  The library functions of the examples give what the libraries give on the strings of
  the examples: \<^verbatim>\<open>urljoin\<close> raises on a href with a bracket, returns a URL with a scheme
  as it is and puts the site before a path; \<^verbatim>\<open>response.follow\<close> raises where the joined
  URL has no \<^verbatim>\<open>://\<close>; \<^verbatim>\<open>remove_tags\<close> strips the tags of the two HTML strings used.
\<close>

definition example_urljoin :: "string \<Rightarrow> string option" where
  "example_urljoin h =
     (if CHR ''['' \<in> set h then None
      else if startswith ''/'' h then Some (''https://www.themanufacturer.com'' @ h)
      else Some h)"

definition example_follow_raises :: "string \<Rightarrow> bool" where
  "example_follow_raises h =
     (case example_urljoin h of None \<Rightarrow> True | Some u \<Rightarrow> \<not> py_in ''://'' u)"

definition example_remove_tags :: "string \<Rightarrow> string" where
  "example_remove_tags s =
     (if s = ''<div><p>Body  text</p></div>'' then ''Body  text''
      else if s = ''<p>text</p>'' then ''text''
      else s)"

definition example_env :: env where
  "example_env =
     \<lparr>urljoin = (\<lambda>base h. example_urljoin h),
      netloc = (\<lambda>u. if startswith ''https://'' u
                      then Some (takeWhile (\<lambda>c. c \<noteq> CHR ''/'') (drop 8 u)) else None),
      remove_tags = example_remove_tags,
      detect = None,
      utcnow = ''2026-11-03T10:00:00''\<rparr>"

definition example_listing :: response where
  "example_listing =
     \<lparr>url = ''https://www.themanufacturer.com/channel/automation/'',
      meta_section_url = Some ''https://www.themanufacturer.com/channel/automation/'',
      meta_article_count = None,
      css = (\<lambda>sel.
        if sel = ''h3.item-title a::attr(href)''
        then [\<lparr>get = ''/articles/f/'', hrefs = []\<rparr>, \<lparr>get = ''/articles/b/'', hrefs = []\<rparr>,
              \<lparr>get = ''/articles/d/'', hrefs = []\<rparr>, \<lparr>get = ''/events/x/'', hrefs = []\<rparr>]
        else if sel = ''div.item-excerpt a::attr(href)''
        then [\<lparr>get = ''https://www.themanufacturer.com/articles/b/'', hrefs = []\<rparr>,
              \<lparr>get = ''/articles/a/'', hrefs = []\<rparr>, \<lparr>get = ''/articles/e/'', hrefs = []\<rparr>,
              \<lparr>get = ''/articles/c/'', hrefs = []\<rparr>]
        else if sel = ''a.next::attr(href)''
        then [\<lparr>get = ''/channel/automation/page/2/'', hrefs = []\<rparr>]
        else []),
      response_urljoin = example_urljoin,
      follow_raises = example_follow_raises\<rparr>"

definition example_listing_script :: response where
  \<comment> \<open>the same page, with a script link in place of the first article link\<close>
  "example_listing_script =
     example_listing
       \<lparr>css := (\<lambda>sel.
          if sel = ''div.item-excerpt a::attr(href)''
          then [\<lparr>get = ''https://www.themanufacturer.com/articles/b/'', hrefs = []\<rparr>,
                \<lparr>get = ''JAVASCRIPT:go(/articles/a/)'', hrefs = []\<rparr>,
                \<lparr>get = ''/articles/e/'', hrefs = []\<rparr>, \<lparr>get = ''/articles/c/'', hrefs = []\<rparr>]
          else css example_listing sel)\<rparr>"

definition example_listing_bracket :: response where
  \<comment> \<open>the same page, with one more article link, on which \<^verbatim>\<open>response.urljoin\<close> raises\<close>
  "example_listing_bracket =
     example_listing
       \<lparr>css := (\<lambda>sel.
          if sel = ''a[href*='' @ [apostrophe] @ ''/articles/'' @ [apostrophe] @ '']::attr(href)''
          then [\<lparr>get = ''http://[/articles/'', hrefs = []\<rparr>]
          else css example_listing sel)\<rparr>"

definition example_listing_script_next :: response where
  \<comment> \<open>the page as a second page of its section, with a script link as its next link\<close>
  "example_listing_script_next =
     example_listing
       \<lparr>meta_article_count := Some 1,
        css := (\<lambda>sel.
          if sel = ''a.next::attr(href)''
          then [\<lparr>get = ''javascript:void(0)'', hrefs = []\<rparr>]
          else css example_listing sel)\<rparr>"

definition example_seen :: seen_table where
  "example_seen =
     [(''https://www.themanufacturer.com/articles/a/'', ''2026-11-01T08:00:00''),
      (''https://www.themanufacturer.com/articles/c/'', ''2026-11-01T08:00:01''),
      (''https://www.themanufacturer.com/articles/e/'', ''2026-11-01T08:00:02'')]"

definition example_article :: "string \<Rightarrow> response" where
  \<comment> \<open>an article page whose date element holds the given text\<close>
  "example_article d =
     \<lparr>url = ''https://www.themanufacturer.com/articles/a/'',
      meta_section_url = Some ''https://www.themanufacturer.com/channel/automation/'',
      meta_article_count = Some 1,
      css = (\<lambda>sel.
        if sel = ''h1.page-title::text'' then [\<lparr>get = '' A title '', hrefs = []\<rparr>]
        else if sel = ''#single-article-date::text'' then [\<lparr>get = d, hrefs = []\<rparr>]
        else if sel = ''div.entry-content''
        then [\<lparr>get = ''<div><p>Body  text</p></div>'',
               hrefs = [''/articles/x/'', ''https://twitter.com/tm'', ''/articles/x/'', [],
                        ''/about/'']\<rparr>]
        else []),
      response_urljoin = example_urljoin,
      follow_raises = example_follow_raises\<rparr>"

definition example_article_bracket :: "string \<Rightarrow> response" where
  \<comment> \<open>the same page with one more link in its body, on which \<^verbatim>\<open>urljoin\<close> raises\<close>
  "example_article_bracket d =
     example_article d
       \<lparr>css := (\<lambda>sel.
          if sel = ''div.entry-content''
          then [\<lparr>get = ''<div><p>Body  text</p></div>'',
                 hrefs = [''/articles/x/'', ''https://[x'']\<rparr>]
          else css (example_article d) sel)\<rparr>"


section \<open>Properties of the seen-URL store\<close>

lemma SeenStore_has_iff: "SeenStore_has rows k \<longleftrightarrow> k \<in> fst ` set rows"
  by (induction rows) (auto simp: SeenStore_has_def)

lemma SeenStore_has_add: "SeenStore_has (SeenStore_add rows u now) k \<longleftrightarrow> k = u \<or> SeenStore_has rows k"
  by (auto simp: SeenStore_has_iff SeenStore_add_def)

lemma SeenStore_has_adds:
  "SeenStore_has (adds rows calls) k \<longleftrightarrow> SeenStore_has rows k \<or> k \<in> fst ` set calls"
  by (induction rows calls rule: adds.induct) (auto simp: SeenStore_has_add)

lemma entries_add:
  "entries (SeenStore_add rows u now) k =
     (if k = u \<and> \<not> SeenStore_has rows u then Suc (entries rows k) else entries rows k)"
  by (auto simp: entries_def SeenStore_add_def SeenStore_has_iff)

lemma entries_has: "\<not> SeenStore_has rows k \<Longrightarrow> entries rows k = 0"
  by (induction rows) (auto simp: entries_def SeenStore_has_def)

lemma entries_pos: "SeenStore_has rows k \<Longrightarrow> entries rows k \<noteq> 0"
  by (induction rows) (auto simp: entries_def SeenStore_has_def)

lemma entries_adds_fresh:
  "entries rows k \<le> 1 \<Longrightarrow> entries (adds rows calls) k \<le> 1"
proof (induction rows calls rule: adds.induct)
  case (1 rows)
  then show ?case by simp
next
  case (2 rows u now calls)
  have "entries (SeenStore_add rows u now) k \<le> 1"
    using "2.prems" entries_has [of rows k] by (auto simp: entries_add)
  then show ?case using "2.IH" by simp
qed

lemma first_seen_add:
  "SeenStore_has rows k \<Longrightarrow> first_seen (SeenStore_add rows u now) k = first_seen rows k"
  by (induction rows) (auto simp: first_seen_def SeenStore_add_def SeenStore_has_def)

lemma find_snoc_new:
  "u \<notin> fst ` set rows \<Longrightarrow> find (\<lambda>r. fst r = u) (rows @ [(u, now)]) = Some (u, now)"
  by (induction rows) auto

lemma first_seen_add_new:
  "\<not> SeenStore_has rows u \<Longrightarrow> first_seen (SeenStore_add rows u now) u = Some now"
  by (simp add: SeenStore_has_iff first_seen_def SeenStore_add_def find_snoc_new)

text \<open>
  C5. Starting from a file with no table, \<open>has u\<close> is true exactly when one of the
  \<open>add\<close> calls made so far was for \<open>u\<close>: false before any, true after one. It keeps its
  value when the store is closed and opened again from its file. A second \<open>add u\<close> changes
  nothing: the table is the same, it holds one row for \<open>u\<close> however many calls were made,
  and the row keeps the time of the first call.
\<close>

theorem SeenStore_ledger:
  "(SeenStore_has (adds (SeenStore_init None) calls) u \<longleftrightarrow> u \<in> fst ` set calls)
   \<and> SeenStore_has (SeenStore_add rows u now) u
   \<and> SeenStore_has (SeenStore_init (SeenStore_close rows)) u = SeenStore_has rows u
   \<and> SeenStore_init (SeenStore_close rows) = rows
   \<and> SeenStore_add (SeenStore_add rows u now) u later = SeenStore_add rows u now
   \<and> entries (adds (SeenStore_init None) calls) u = (if u \<in> fst ` set calls then 1 else 0)
   \<and> first_seen (adds (SeenStore_add (SeenStore_init None) u now) calls) u = Some now"
proof -
  let ?fresh = "SeenStore_init None"
  have fresh: "?fresh = []" by (simp add: SeenStore_init_def)
  have none: "\<not> SeenStore_has ?fresh u"
    by (simp add: fresh SeenStore_has_def)
  have a: "SeenStore_has (adds ?fresh calls) u \<longleftrightarrow> u \<in> fst ` set calls"
    using none by (simp only: SeenStore_has_adds) simp
  have b: "SeenStore_has (SeenStore_add rows u now) u"
    by (simp add: SeenStore_has_add)
  have c: "SeenStore_init (SeenStore_close rows) = rows"
    by (simp add: SeenStore_init_def SeenStore_close_def)
  have d: "SeenStore_add (SeenStore_add rows u now) u later = SeenStore_add rows u now"
    by (auto simp: SeenStore_add_def)
  have "entries (adds ?fresh calls) u \<le> 1"
    by (rule entries_adds_fresh) (simp add: fresh entries_def)
  moreover have "u \<in> fst ` set calls \<Longrightarrow> entries (adds ?fresh calls) u \<noteq> 0"
    using a entries_pos by blast
  moreover have "u \<notin> fst ` set calls \<Longrightarrow> entries (adds ?fresh calls) u = 0"
    using a entries_has by blast
  ultimately have e: "entries (adds ?fresh calls) u = (if u \<in> fst ` set calls then 1 else 0)"
    by (cases "u \<in> fst ` set calls") auto
  have keep: "first_seen (adds t calls) u = first_seen t u" if "SeenStore_has t u" for t
    using that
  proof (induction t calls rule: adds.induct)
    case (1 t)
    then show ?case by simp
  next
    case (2 t v n calls)
    then show ?case by (simp add: SeenStore_has_add first_seen_add)
  qed
  have f: "first_seen (adds (SeenStore_add ?fresh u now) calls) u = Some now"
  proof -
    have "SeenStore_has (SeenStore_add ?fresh u now) u"
      by (simp add: SeenStore_has_add)
    then show ?thesis
      using keep first_seen_add_new [OF none, of now] by simp
  qed
  show ?thesis using a b c d e f by simp
qed

theorem SeenStore_ledger_witness:
  "SeenStore_has (adds (SeenStore_init None) [(''u1'', ''t1''), (''u2'', ''t2''), (''u1'', ''t3'')]) ''u1''
   \<and> \<not> SeenStore_has (adds (SeenStore_init None) [(''u2'', ''t2'')]) ''u1''
   \<and> SeenStore_has (SeenStore_init (SeenStore_close [(''u1'', ''t1'')])) ''u1''
   \<and> SeenStore_add (SeenStore_add [] ''u1'' ''t1'') ''u1'' ''t3'' = [(''u1'', ''t1'')]
   \<and> entries (adds (SeenStore_init None) [(''u1'', ''t1''), (''u2'', ''t2''), (''u1'', ''t3'')]) ''u1'' = 1
   \<and> first_seen (adds (SeenStore_add (SeenStore_init None) ''u1'' ''t1'') [(''u2'', ''t2''), (''u1'', ''t3'')]) ''u1''
       = Some ''t1''"
  using SeenStore_ledger [of "[(''u1'', ''t1''), (''u2'', ''t2''), (''u1'', ''t3'')]" "''u1''"
      "[]" "''t1''" "''t3''"]
    SeenStore_ledger [of "[(''u2'', ''t2'')]" "''u1''" "[(''u1'', ''t1'')]" "''t1''" "''t3''"]
    SeenStore_ledger [of "[(''u2'', ''t2''), (''u1'', ''t3'')]" "''u1''" "[]" "''t1''" "''t3''"]
  by (simp add: SeenStore_add_def SeenStore_has_def)

section \<open>Properties of the date parser and of the constructor\<close>

lemma strip_Nil: "strip [] = []"
  by (simp add: strip_def)

lemma parse_date_Nil: "parse_date [] = None"
  by (simp add: parse_date_def)

lemma py_int_Nil: "py_int [] = None"
  by (simp add: py_int_def int_literal_def)

text \<open>
  C8. The date parser maps \<^verbatim>\<open>"21st March 2024"\<close> and \<^verbatim>\<open>"March 21 2024"\<close> to the date
  2024-03-21, written \<^verbatim>\<open>2024-03-21\<close> in the record, and \<^verbatim>\<open>"Spring 2024"\<close> to
  \<^verbatim>\<open>None\<close>.
\<close>

theorem parse_date_examples:
  "parse_date ''21st March 2024'' = Some \<lparr>year = 2024, month = 3, day = 21\<rparr>
   \<and> parse_date ''March 21 2024'' = Some \<lparr>year = 2024, month = 3, day = 21\<rparr>
   \<and> parse_date ''Spring 2024'' = None
   \<and> map_option isoformat (parse_date ''21st March 2024'') = Some ''2024-03-21''"
  by code_simp

text \<open>
  C10. Constructed with neither \<^verbatim>\<open>cutoff\<close> nor \<^verbatim>\<open>cutoff_year\<close> (absent or empty),
  the spider has the cutoff date 2025-01-01. Constructed with \<^verbatim>\<open>cutoff_year\<close> only, a
  string that \<^verbatim>\<open>int\<close> reads as a year from 1 to 9999, it has the first of January of
  that year.
\<close>

theorem spider_init_default:
  "spider_init fromisoformat None None = Inr \<lparr>year = 2025, month = 1, day = 1\<rparr>
   \<and> (\<not> truthy cutoff \<and> \<not> truthy cutoff_year \<longrightarrow>
        spider_init fromisoformat cutoff cutoff_year = Inr \<lparr>year = 2025, month = 1, day = 1\<rparr>)
   \<and> (\<not> truthy cutoff \<and> py_int y = Some n \<and> 1 \<le> n \<and> n \<le> 9999 \<longrightarrow>
        spider_init fromisoformat cutoff (Some y) = Inr \<lparr>year = nat n, month = 1, day = 1\<rparr>)"
proof -
  have "y \<noteq> []" if "py_int y = Some n"
    using that py_int_Nil by auto
  then show ?thesis
    by (auto simp: spider_init_def truthy_def date_new_def valid_date_def days_in_month_def)
qed

theorem spider_init_default_witness:
  "\<not> truthy None \<and> \<not> truthy (Some [])
   \<and> py_int ''2020'' = Some 2020
   \<and> spider_init (\<lambda>s. Inl ValueError) None (Some []) = Inr \<lparr>year = 2025, month = 1, day = 1\<rparr>
   \<and> spider_init (\<lambda>s. Inl ValueError) None (Some ''2020'') = Inr \<lparr>year = 2020, month = 1, day = 1\<rparr>
   \<and> py_int (CHR 0x1C # ''2020'') = None
   \<and> spider_init (\<lambda>s. Inl ValueError) None (Some (CHR 0x1C # ''2020'')) = Inl ValueError"
proof -
  have a: "py_int ''2020'' = Some 2020" by code_simp
  have b: "\<not> truthy None" "\<not> truthy (Some [])" by (simp_all add: truthy_def)
  have c: "py_int (CHR 0x1C # ''2020'') = None" by code_simp
  have d: "spider_init (\<lambda>s. Inl ValueError) None (Some (CHR 0x1C # ''2020'')) = Inl ValueError"
    by (simp add: spider_init_def truthy_def c)
  show ?thesis
    using a b c d spider_init_default [of "\<lambda>s. Inl ValueError" None "Some []" "''2020''" 2020]
    by simp
qed

section \<open>Properties of the listing callback\<close>

lemma join_all_set:
  "join_all f hs = Some us \<Longrightarrow> set us = {u. \<exists>h \<in> set hs. f h = Some u}"
proof (induction hs arbitrary: us)
  case Nil
  then show ?case by simp
next
  case (Cons h hs)
  from Cons.prems obtain u vs where u: "f h = Some u" and vs: "join_all f hs = Some vs"
    and us: "us = u # vs"
    by (auto split: option.splits)
  have "set vs = {u. \<exists>h \<in> set hs. f h = Some u}"
    using vs by (rule Cons.IH)
  then show ?case
    using u by (auto simp: us)
qed

lemma article_links_Inr:
  assumes "article_links r = Inr links"
  shows "sorted_wrt (<) links"
    and "set links =
           {u. \<exists>h \<in> set (section_hrefs r). py_in ''/articles/'' h \<and> response_urljoin r h = Some u}"
proof -
  obtain us where us: "join_all (response_urljoin r) (filter (py_in ''/articles/'') (section_hrefs r)) = Some us"
    and l: "links = sort (remdups us)"
    using assms by (auto simp: article_links_def split: option.splits)
  show "sorted_wrt (<) links"
    by (simp add: l strict_sorted_iff)
  show "set links =
           {u. \<exists>h \<in> set (section_hrefs r). py_in ''/articles/'' h \<and> response_urljoin r h = Some u}"
    using join_all_set [OF us] by (auto simp: l)
qed

lemma article_requests_Cons:
  "article_requests r n (h # hs) =
     \<lparr>follow = h, callback = parse_article_callback, section_url = meta_section_url r,
      article_count = n + 1\<rparr> # article_requests r (n + 1) hs"
proof -
  have "[0 ..< length (h # hs)] = 0 # map Suc [0 ..< length hs]"
    by (simp add: upt_conv_Cons map_Suc_upt del: upt_Suc)
  then show ?thesis
    by (simp add: article_requests_def o_def add.assoc del: upt_Suc)
qed

lemma dispatch_no_raise:
  "list_all (\<lambda>u. \<not> follow_raises r u) hs \<Longrightarrow>
   dispatch r n hs = (article_requests r n hs, n + int (length hs), None)"
proof (induction hs arbitrary: n)
  case Nil
  then show ?case by (simp add: article_requests_def)
next
  case (Cons h hs)
  then have "dispatch r (n + 1) hs = (article_requests r (n + 1) hs, n + 1 + int (length hs), None)"
    by simp
  then show ?case
    using Cons.prems by (simp add: article_requests_Cons)
qed

lemma article_requests_fields:
  "map follow (article_requests r n hs) = hs"
  "map callback (article_requests r n hs) = replicate (length hs) parse_article_callback"
  "map section_url (article_requests r n hs) = replicate (length hs) (meta_section_url r)"
  "map article_count (article_requests r n hs) = map (\<lambda>i. n + 1 + int i) [0 ..< length hs]"
  by (simp_all add: article_requests_def o_def map_nth map_replicate_const)

lemma parse_section_no_raise:
  assumes links: "article_links r = Inr links"
    and n: "n = (case meta_article_count r of None \<Rightarrow> 0 | Some k \<Rightarrow> k)"
    and arts: "arts = py_slice_to (5 - n) (filter (\<lambda>u. \<not> SeenStore_has seen u) links)"
    and ok: "list_all (\<lambda>u. \<not> follow_raises r u) arts"
  shows "parse_section seen r =
           (if n + int (length arts) < 5 \<and> truthy (next_page r)
            then (case next_page r of
                    Some h \<Rightarrow>
                      if follow_raises r h then (article_requests r n arts, Some ValueError)
                      else (article_requests r n arts
                            @ [\<lparr>follow = h, callback = parse_section_callback,
                                section_url = meta_section_url r,
                                article_count = n + int (length arts)\<rparr>], None)
                  | None \<Rightarrow> (article_requests r n arts, None))
            else (article_requests r n arts, None))"
proof -
  have c: "section_count r = n"
    by (simp add: section_count_def n)
  have d: "dispatch r n arts = (article_requests r n arts, n + int (length arts), None)"
    using ok by (rule dispatch_no_raise)
  have d': "dispatch r n (py_slice_to (5 - n) (filter (\<lambda>href. \<not> SeenStore_has seen href) links))
              = (article_requests r n arts, n + int (length arts), None)"
    using d by (simp add: arts)
  show ?thesis
    unfolding parse_section_def links c Let_def
    by (simp add: d')
qed

lemma example_article_links:
  "article_links example_listing =
     Inr [''https://www.themanufacturer.com/articles/a/'',
          ''https://www.themanufacturer.com/articles/b/'',
          ''https://www.themanufacturer.com/articles/c/'',
          ''https://www.themanufacturer.com/articles/d/'',
          ''https://www.themanufacturer.com/articles/e/'',
          ''https://www.themanufacturer.com/articles/f/'']"
  by code_simp

lemma example_article_links_script:
  "article_links example_listing_script =
     Inr [''JAVASCRIPT:go(/articles/a/)'',
          ''https://www.themanufacturer.com/articles/b/'',
          ''https://www.themanufacturer.com/articles/c/'',
          ''https://www.themanufacturer.com/articles/d/'',
          ''https://www.themanufacturer.com/articles/e/'',
          ''https://www.themanufacturer.com/articles/f/'']"
  by code_simp

lemma example_article_links_second:
  "article_links (example_listing\<lparr>meta_article_count := Some 1\<rparr>) =
     Inr [''https://www.themanufacturer.com/articles/a/'',
          ''https://www.themanufacturer.com/articles/b/'',
          ''https://www.themanufacturer.com/articles/c/'',
          ''https://www.themanufacturer.com/articles/d/'',
          ''https://www.themanufacturer.com/articles/e/'',
          ''https://www.themanufacturer.com/articles/f/'']"
  by code_simp

text \<open>
  C1. A listing page processed with the count 0 (no count in its \<^verbatim>\<open>meta\<close>, or the count
  0), whose article links (the hrefs of the three selectors that contain \<^verbatim>\<open>/articles/\<close>,
  each resolved by \<^verbatim>\<open>response.urljoin\<close>, as a sorted set) are six or more and all unknown
  to the store, and for whose five least links \<^verbatim>\<open>response.follow\<close> makes a request: the
  callback ends with no error and yields five requests and no more. They are article
  requests for the five least resolved URLs in ascending order, they carry the section
  URL of the page and the counts 1 to 5, and no request for a further listing page is
  among them.
\<close>

theorem parse_section_admits_five:
  assumes "meta_article_count r = None \<or> meta_article_count r = Some 0"
    and "article_links r = Inr links"
    and "6 \<le> length links"
    and "list_all (\<lambda>u. \<not> SeenStore_has seen u) links"
    and "list_all (\<lambda>u. \<not> follow_raises r u) (take 5 links)"
  shows "snd (parse_section seen r) = None
         \<and> map follow (fst (parse_section seen r)) = take 5 links
         \<and> map callback (fst (parse_section seen r)) = replicate 5 parse_article_callback
         \<and> map section_url (fst (parse_section seen r)) = replicate 5 (meta_section_url r)
         \<and> map article_count (fst (parse_section seen r)) = [1, 2, 3, 4, 5]
         \<and> sorted_wrt (<) links
         \<and> set links =
             {u. \<exists>h \<in> set (section_hrefs r).
                   py_in ''/articles/'' h \<and> response_urljoin r h = Some u}"
proof -
  have n: "(0::int) = (case meta_article_count r of None \<Rightarrow> 0 | Some k \<Rightarrow> k)"
    using assms(1) by auto
  have new: "filter (\<lambda>u. \<not> SeenStore_has seen u) links = links"
    using assms(4) by (simp add: list_all_iff)
  have arts: "take 5 links = py_slice_to (5 - 0) (filter (\<lambda>u. \<not> SeenStore_has seen u) links)"
    by (simp add: new py_slice_to_def)
  have len: "length (take 5 links) = 5"
    using assms(3) by simp
  have eq: "parse_section seen r = (article_requests r 0 (take 5 links), None)"
    using parse_section_no_raise [OF assms(2) n arts assms(5)] len by simp
  have upt5: "[0 ..< 5] = [0, 1, 2, 3, 4::nat]"
    by (simp add: upt_conv_Cons)
  show ?thesis
    unfolding eq fst_conv snd_conv article_requests_fields len
    using article_links_Inr [OF assms(2)] by (simp add: upt5)
qed

theorem parse_section_admits_five_witness:
  "(meta_article_count example_listing = None \<or> meta_article_count example_listing = Some 0)
   \<and> article_links example_listing =
       Inr [''https://www.themanufacturer.com/articles/a/'',
            ''https://www.themanufacturer.com/articles/b/'',
            ''https://www.themanufacturer.com/articles/c/'',
            ''https://www.themanufacturer.com/articles/d/'',
            ''https://www.themanufacturer.com/articles/e/'',
            ''https://www.themanufacturer.com/articles/f/'']
   \<and> snd (parse_section [] example_listing) = None
   \<and> map follow (fst (parse_section [] example_listing)) =
       [''https://www.themanufacturer.com/articles/a/'',
        ''https://www.themanufacturer.com/articles/b/'',
        ''https://www.themanufacturer.com/articles/c/'',
        ''https://www.themanufacturer.com/articles/d/'',
        ''https://www.themanufacturer.com/articles/e/'']
   \<and> map callback (fst (parse_section [] example_listing)) = replicate 5 parse_article_callback
   \<and> map section_url (fst (parse_section [] example_listing)) =
       replicate 5 (Some ''https://www.themanufacturer.com/channel/automation/'')
   \<and> map article_count (fst (parse_section [] example_listing)) = [1, 2, 3, 4, 5]"
proof -
  let ?links = "[''https://www.themanufacturer.com/articles/a/'',
            ''https://www.themanufacturer.com/articles/b/'',
            ''https://www.themanufacturer.com/articles/c/'',
            ''https://www.themanufacturer.com/articles/d/'',
            ''https://www.themanufacturer.com/articles/e/'',
            ''https://www.themanufacturer.com/articles/f/'']"
  have h1: "meta_article_count example_listing = None \<or> meta_article_count example_listing = Some 0"
    by (simp add: example_listing_def)
  have h2: "article_links example_listing = Inr ?links"
    by (rule example_article_links)
  have h3: "6 \<le> length ?links"
    by simp
  have h4: "list_all (\<lambda>u. \<not> SeenStore_has [] u) ?links"
    by (simp add: SeenStore_has_def)
  have fr: "follow_raises example_listing = example_follow_raises"
    by (simp add: example_listing_def)
  have h5: "list_all (\<lambda>u. \<not> follow_raises example_listing u) (take 5 ?links)"
    unfolding fr by code_simp
  have su: "meta_section_url example_listing
              = Some ''https://www.themanufacturer.com/channel/automation/''"
    by (simp add: example_listing_def)
  show ?thesis
    using h1 h2 parse_section_admits_five [OF h1 h2 h3 h4 h5]
    by (simp add: su)
qed

text \<open>
  C1, a page on which five fetches are not dispatched. The page has six article links,
  none of them in the store, and is processed with the count 0. The least of its resolved
  links is \<^verbatim>\<open>JAVASCRIPT:go(/articles/a/)\<close>: its href contains \<^verbatim>\<open>/articles/\<close>,
  \<^verbatim>\<open>response.urljoin\<close> returns it as it is, and \<^verbatim>\<open>response.follow\<close> raises
  \<^verbatim>\<open>ValueError\<close> for it, a URL with no \<^verbatim>\<open>://\<close>. The callback raises at this first link
  and yields no request at all. So does it on the page that has the six links of the
  first example and one more, \<^verbatim>\<open>http://[/articles/\<close>, on which \<^verbatim>\<open>response.urljoin\<close>
  raises \<^verbatim>\<open>ValueError\<close>.
\<close>

theorem parse_section_script_link:
  "meta_article_count example_listing_script = None
   \<and> article_links example_listing_script =
       Inr [''JAVASCRIPT:go(/articles/a/)'',
            ''https://www.themanufacturer.com/articles/b/'',
            ''https://www.themanufacturer.com/articles/c/'',
            ''https://www.themanufacturer.com/articles/d/'',
            ''https://www.themanufacturer.com/articles/e/'',
            ''https://www.themanufacturer.com/articles/f/'']
   \<and> list_all (\<lambda>u. \<not> SeenStore_has [] u)
        [''JAVASCRIPT:go(/articles/a/)'',
         ''https://www.themanufacturer.com/articles/b/'',
         ''https://www.themanufacturer.com/articles/c/'',
         ''https://www.themanufacturer.com/articles/d/'',
         ''https://www.themanufacturer.com/articles/e/'',
         ''https://www.themanufacturer.com/articles/f/'']
   \<and> parse_section [] example_listing_script = ([], Some ValueError)
   \<and> response_urljoin example_listing_bracket ''http://[/articles/'' = None
   \<and> parse_section [] example_listing_bracket = ([], Some ValueError)"
proof -
  have a: "meta_article_count example_listing_script = None"
    by (simp add: example_listing_script_def example_listing_def)
  have c: "list_all (\<lambda>u. \<not> SeenStore_has [] u)
        [''JAVASCRIPT:go(/articles/a/)'',
         ''https://www.themanufacturer.com/articles/b/'',
         ''https://www.themanufacturer.com/articles/c/'',
         ''https://www.themanufacturer.com/articles/d/'',
         ''https://www.themanufacturer.com/articles/e/'',
         ''https://www.themanufacturer.com/articles/f/'']"
    by (simp add: SeenStore_has_def)
  have d: "parse_section [] example_listing_script = ([], Some ValueError)"
    by code_simp
  have e: "response_urljoin example_listing_bracket ''http://[/articles/'' = None"
    by (simp add: example_listing_bracket_def example_listing_def example_urljoin_def)
  have f: "parse_section [] example_listing_bracket = ([], Some ValueError)"
    by code_simp
  show ?thesis
    using a example_article_links_script c d e f by blast
qed

text \<open>
  C2. A listing page whose article hrefs all resolve, received with the count \<open>n\<close> (0 when
  its \<^verbatim>\<open>meta\<close> has none); \<open>arts\<close> are its links that the store does not know, in
  ascending order, and \<^verbatim>\<open>response.follow\<close> makes a request for each. When the count
  reached, \<open>n\<close> plus the number of \<open>arts\<close>, is below 5, all of \<open>arts\<close> are admitted and
  the next link of the page decides what follows the article requests. The next link is the href of the
  first of the three selectors \<^verbatim>\<open>a.next.page-numbers\<close>, \<^verbatim>\<open>a.next\<close>,
  \<^verbatim>\<open>link[rel='next']\<close> whose first match has a href that is not empty. If there is one
  and \<^verbatim>\<open>response.follow\<close> makes a request for it, the callback yields the article
  requests and then one request for that href, to the listing callback, with the section
  URL of the page and the count reached. If there is none, the article requests are all
  that is yielded. In both cases the callback ends with no error.
\<close>

theorem parse_section_pagination:
  assumes "article_links r = Inr links"
    and "n = (case meta_article_count r of None \<Rightarrow> 0 | Some k \<Rightarrow> k)"
    and "arts = filter (\<lambda>u. \<not> SeenStore_has seen u) links"
    and "list_all (\<lambda>u. \<not> follow_raises r u) arts"
    and "n + int (length arts) < 5"
  shows "(\<forall>h. next_page r = Some h \<and> h \<noteq> [] \<and> \<not> follow_raises r h \<longrightarrow>
            parse_section seen r =
              (article_requests r n arts
               @ [\<lparr>follow = h, callback = parse_section_callback,
                   section_url = meta_section_url r,
                   article_count = n + int (length arts)\<rparr>], None))
         \<and> (\<not> truthy (next_page r) \<longrightarrow> parse_section seen r = (article_requests r n arts, None))
         \<and> next_page r =
             (if truthy (css_get r ''a.next.page-numbers::attr(href)'')
              then css_get r ''a.next.page-numbers::attr(href)''
              else if truthy (css_get r ''a.next::attr(href)'')
              then css_get r ''a.next::attr(href)''
              else css_get r (''link[rel='' @ [apostrophe] @ ''next'' @ [apostrophe]
                              @ '']::attr(href)''))"
proof -
  have all: "arts = py_slice_to (5 - n) (filter (\<lambda>u. \<not> SeenStore_has seen u) links)"
    using assms(5) by (simp add: py_slice_to_def assms(3))
  note eq = parse_section_no_raise [OF assms(1) assms(2) all assms(4)]
  have a: "parse_section seen r =
              (article_requests r n arts
               @ [\<lparr>follow = h, callback = parse_section_callback,
                   section_url = meta_section_url r,
                   article_count = n + int (length arts)\<rparr>], None)"
    if "next_page r = Some h" "h \<noteq> []" "\<not> follow_raises r h" for h
    using that assms(5) by (simp add: eq truthy_def)
  have b: "parse_section seen r = (article_requests r n arts, None)" if "\<not> truthy (next_page r)"
    using that by (simp add: eq)
  have c: "next_page r =
             (if truthy (css_get r ''a.next.page-numbers::attr(href)'')
              then css_get r ''a.next.page-numbers::attr(href)''
              else if truthy (css_get r ''a.next::attr(href)'')
              then css_get r ''a.next::attr(href)''
              else css_get r (''link[rel='' @ [apostrophe] @ ''next'' @ [apostrophe]
                              @ '']::attr(href)''))"
    by (simp add: next_page_def py_or_def)
  show ?thesis
    using a b c by blast
qed

theorem parse_section_pagination_witness:
  "parse_section example_seen (example_listing\<lparr>meta_article_count := Some 1\<rparr>) =
       ([\<lparr>follow = ''https://www.themanufacturer.com/articles/b/'',
          callback = parse_article_callback,
          section_url = Some ''https://www.themanufacturer.com/channel/automation/'',
          article_count = 2\<rparr>,
         \<lparr>follow = ''https://www.themanufacturer.com/articles/d/'',
          callback = parse_article_callback,
          section_url = Some ''https://www.themanufacturer.com/channel/automation/'',
          article_count = 3\<rparr>,
         \<lparr>follow = ''https://www.themanufacturer.com/articles/f/'',
          callback = parse_article_callback,
          section_url = Some ''https://www.themanufacturer.com/channel/automation/'',
          article_count = 4\<rparr>,
         \<lparr>follow = ''/channel/automation/page/2/'',
          callback = parse_section_callback,
          section_url = Some ''https://www.themanufacturer.com/channel/automation/'',
          article_count = 4\<rparr>], None)
   \<and> next_page (example_listing\<lparr>meta_article_count := Some 1\<rparr>)
       = Some ''/channel/automation/page/2/''
   \<and> parse_section example_seen (example_listing\<lparr>css := \<lambda>sel. []\<rparr>) = ([], None)
   \<and> next_page (example_listing\<lparr>css := \<lambda>sel. []\<rparr>) = None"
proof -
  let ?r = "example_listing\<lparr>meta_article_count := Some 1\<rparr>"
  let ?e = "example_listing\<lparr>css := \<lambda>sel. []\<rparr>"
  let ?links = "[''https://www.themanufacturer.com/articles/a/'',
            ''https://www.themanufacturer.com/articles/b/'',
            ''https://www.themanufacturer.com/articles/c/'',
            ''https://www.themanufacturer.com/articles/d/'',
            ''https://www.themanufacturer.com/articles/e/'',
            ''https://www.themanufacturer.com/articles/f/'']"
  let ?arts = "[''https://www.themanufacturer.com/articles/b/'',
               ''https://www.themanufacturer.com/articles/d/'',
               ''https://www.themanufacturer.com/articles/f/'']"
  have h1: "article_links ?r = Inr ?links"
    by (rule example_article_links_second)
  have h2: "(1::int) = (case meta_article_count ?r of None \<Rightarrow> 0 | Some k \<Rightarrow> k)"
    by simp
  have h3: "?arts = filter (\<lambda>u. \<not> SeenStore_has example_seen u) ?links"
    by (simp add: example_seen_def SeenStore_has_def)
  have fr: "follow_raises ?r = example_follow_raises"
    by (simp add: example_listing_def)
  have h4: "list_all (\<lambda>u. \<not> follow_raises ?r u) ?arts"
    unfolding fr by code_simp
  have h5: "1 + int (length ?arts) < 5"
    by simp
  have np: "next_page ?r = Some ''/channel/automation/page/2/''"
    by (simp add: next_page_def py_or_def truthy_def css_get_def example_listing_def
        apostrophe_def)
  have nr: "\<not> follow_raises ?r ''/channel/automation/page/2/''"
    unfolding fr by code_simp
  have su: "meta_section_url ?r = Some ''https://www.themanufacturer.com/channel/automation/''"
    by (simp add: example_listing_def)
  have ar: "article_requests ?r 1 ?arts =
        [\<lparr>follow = ''https://www.themanufacturer.com/articles/b/'',
          callback = parse_article_callback,
          section_url = Some ''https://www.themanufacturer.com/channel/automation/'',
          article_count = 2\<rparr>,
         \<lparr>follow = ''https://www.themanufacturer.com/articles/d/'',
          callback = parse_article_callback,
          section_url = Some ''https://www.themanufacturer.com/channel/automation/'',
          article_count = 3\<rparr>,
         \<lparr>follow = ''https://www.themanufacturer.com/articles/f/'',
          callback = parse_article_callback,
          section_url = Some ''https://www.themanufacturer.com/channel/automation/'',
          article_count = 4\<rparr>]"
    unfolding article_requests_Cons su by (simp add: article_requests_def)
  have r1: "parse_section example_seen ?r =
              (article_requests ?r 1 ?arts
               @ [\<lparr>follow = ''/channel/automation/page/2/'', callback = parse_section_callback,
                   section_url = meta_section_url ?r,
                   article_count = 1 + int (length ?arts)\<rparr>], None)"
    using parse_section_pagination [OF h1 h2 h3 h4 h5] np nr by blast
  have g1: "article_links ?e = Inr []"
    by (simp add: article_links_def section_hrefs_def css_getall_def)
  have g2: "(0::int) = (case meta_article_count ?e of None \<Rightarrow> 0 | Some k \<Rightarrow> k)"
    by (simp add: example_listing_def)
  have g3: "[] = filter (\<lambda>u. \<not> SeenStore_has example_seen u) []"
    by simp
  have g4: "list_all (\<lambda>u. \<not> follow_raises ?e u) []"
    by simp
  have g5: "0 + int (length ([]::string list)) < 5"
    by simp
  have np': "next_page ?e = None"
    by (simp add: next_page_def py_or_def truthy_def css_get_def)
  have t': "\<not> truthy (next_page ?e)"
    by (simp add: np' truthy_def)
  have r2: "parse_section example_seen ?e = (article_requests ?e 0 [], None)"
    using parse_section_pagination [OF g1 g2 g3 g4 g5] t' by blast
  have r1': "parse_section example_seen ?r =
       ([\<lparr>follow = ''https://www.themanufacturer.com/articles/b/'',
          callback = parse_article_callback,
          section_url = Some ''https://www.themanufacturer.com/channel/automation/'',
          article_count = 2\<rparr>,
         \<lparr>follow = ''https://www.themanufacturer.com/articles/d/'',
          callback = parse_article_callback,
          section_url = Some ''https://www.themanufacturer.com/channel/automation/'',
          article_count = 3\<rparr>,
         \<lparr>follow = ''https://www.themanufacturer.com/articles/f/'',
          callback = parse_article_callback,
          section_url = Some ''https://www.themanufacturer.com/channel/automation/'',
          article_count = 4\<rparr>,
         \<lparr>follow = ''/channel/automation/page/2/'',
          callback = parse_section_callback,
          section_url = Some ''https://www.themanufacturer.com/channel/automation/'',
          article_count = 4\<rparr>], None)"
    unfolding r1 ar su by simp
  have r2': "parse_section example_seen ?e = ([], None)"
    unfolding r2 by (simp add: article_requests_def)
  show ?thesis
    using r1' np r2' np' by blast
qed

text \<open>
  C2, a page with a next link for which no request is made. The page is received with the
  count 1; three of its links are new, so the count reached is 4. Its next link, found by
  the second selector, is \<^verbatim>\<open>javascript:void(0)\<close>, for which \<^verbatim>\<open>response.follow\<close> raises
  \<^verbatim>\<open>ValueError\<close>. The callback yields the three article requests and then raises: no
  request for a listing page is yielded.
\<close>

theorem parse_section_script_next:
  "meta_article_count example_listing_script_next = Some 1
   \<and> next_page example_listing_script_next = Some ''javascript:void(0)''
   \<and> parse_section example_seen example_listing_script_next =
       ([\<lparr>follow = ''https://www.themanufacturer.com/articles/b/'',
          callback = parse_article_callback,
          section_url = Some ''https://www.themanufacturer.com/channel/automation/'',
          article_count = 2\<rparr>,
         \<lparr>follow = ''https://www.themanufacturer.com/articles/d/'',
          callback = parse_article_callback,
          section_url = Some ''https://www.themanufacturer.com/channel/automation/'',
          article_count = 3\<rparr>,
         \<lparr>follow = ''https://www.themanufacturer.com/articles/f/'',
          callback = parse_article_callback,
          section_url = Some ''https://www.themanufacturer.com/channel/automation/'',
          article_count = 4\<rparr>], Some ValueError)"
proof -
  have a: "meta_article_count example_listing_script_next = Some 1"
    by (simp add: example_listing_script_next_def)
  have b: "next_page example_listing_script_next = Some ''javascript:void(0)''"
    by (simp add: next_page_def py_or_def truthy_def css_get_def example_listing_script_next_def
        example_listing_def apostrophe_def)
  have c: "parse_section example_seen example_listing_script_next =
       ([\<lparr>follow = ''https://www.themanufacturer.com/articles/b/'',
          callback = parse_article_callback,
          section_url = Some ''https://www.themanufacturer.com/channel/automation/'',
          article_count = 2\<rparr>,
         \<lparr>follow = ''https://www.themanufacturer.com/articles/d/'',
          callback = parse_article_callback,
          section_url = Some ''https://www.themanufacturer.com/channel/automation/'',
          article_count = 3\<rparr>,
         \<lparr>follow = ''https://www.themanufacturer.com/articles/f/'',
          callback = parse_article_callback,
          section_url = Some ''https://www.themanufacturer.com/channel/automation/'',
          article_count = 4\<rparr>], Some ValueError)"
    by code_simp
  show ?thesis
    using a b c by blast
qed

section \<open>Properties of the article callback\<close>

lemma internal_of_resolves:
  "list_all (\<lambda>h. h = [] \<or> urljoin e base h \<noteq> None) hs \<Longrightarrow>
   \<exists>us. map (urljoin e base) (filter (\<lambda>h. h \<noteq> []) hs) = map Some us
        \<and> internal_of e base hs = Inr (filter (\<lambda>u. u \<noteq> [] \<and> is_internal e u) us)"
proof (induction hs)
  case Nil
  then show ?case by simp
next
  case (Cons h hs)
  then obtain us where us: "map (urljoin e base) (filter (\<lambda>h. h \<noteq> []) hs) = map Some us"
    and io: "internal_of e base hs = Inr (filter (\<lambda>u. u \<noteq> [] \<and> is_internal e u) us)"
    by auto
  show ?case
  proof (cases "h = []")
    case True
    then show ?thesis
      using us io by (auto simp: absolutize_def)
  next
    case False
    then obtain u where u: "urljoin e base h = Some u"
      using Cons.prems by auto
    have "map (urljoin e base) (filter (\<lambda>h. h \<noteq> []) (h # hs)) = map Some (u # us)"
      using False u us by simp
    moreover have "internal_of e base (h # hs) = Inr (filter (\<lambda>u. u \<noteq> [] \<and> is_internal e u) (u # us))"
      using False u io by (simp add: absolutize_def)
    ultimately show ?thesis
      by blast
  qed
qed





lemma parse_article_passed:
  assumes passes: "case css_get r ''#single-article-date::text'' of
                   None \<Rightarrow> True
                 | Some d \<Rightarrow> (case parse_date (strip d) of
                                None \<Rightarrow> True | Some p \<Rightarrow> \<not> date_less p cutoff_date)"
    and io: "internal_of e (url r) (located_body_hrefs r) = Inr links"
  shows "\<exists>it. yielded (parse_article e cutoff_date seen r) = [it]
              \<and> item_url it = url r
              \<and> item_date_iso it =
                  (case css_get r ''#single-article-date::text'' of
                     None \<Rightarrow> None | Some d \<Rightarrow> map_option isoformat (parse_date (strip d)))
              \<and> item_internal_links it =
                  (if keep_first {} links \<noteq> [] then Some (keep_first {} links) else None)"
    and "store (parse_article e cutoff_date seen r) = SeenStore_add seen (url r) (utcnow e)"
    and "raised (parse_article e cutoff_date seen r) = None"
proof -
  let ?d0 = "css_get r ''#single-article-date::text''"
  let ?ds = "if truthy ?d0 then map_option strip ?d0 else None"
  let ?pd = "case ?ds of Some d \<Rightarrow> if d \<noteq> [] then parse_date d else None | None \<Rightarrow> None"
  have pd: "?pd = (case ?d0 of None \<Rightarrow> None | Some d \<Rightarrow> parse_date (strip d))"
    by (cases ?d0) (auto simp: truthy_def parse_date_Nil strip_Nil)
  have g: "(case ?pd of Some d \<Rightarrow> date_less d cutoff_date | None \<Rightarrow> False) = False"
    unfolding pd using passes by (auto split: option.splits)
  show "\<exists>it. yielded (parse_article e cutoff_date seen r) = [it]
              \<and> item_url it = url r
              \<and> item_date_iso it =
                  (case css_get r ''#single-article-date::text'' of
                     None \<Rightarrow> None | Some d \<Rightarrow> map_option isoformat (parse_date (strip d)))
              \<and> item_internal_links it =
                  (if keep_first {} links \<noteq> [] then Some (keep_first {} links) else None)"
    unfolding parse_article_def Let_def g io
    by (simp add: split_def pd split: option.splits)
  show "store (parse_article e cutoff_date seen r) = SeenStore_add seen (url r) (utcnow e)"
    unfolding parse_article_def Let_def g io
    by (simp add: split_def)
  show "raised (parse_article e cutoff_date seen r) = None"
    unfolding parse_article_def Let_def g io
    by (simp add: split_def)
qed

lemma example_article_resolves:
  "list_all (\<lambda>h. h = [] \<or> urljoin example_env (url (example_article d)) h \<noteq> None)
     (located_body_hrefs (example_article d))"
proof -
  have b: "located_body_hrefs (example_article d) =
             [''/articles/x/'', ''https://twitter.com/tm'', ''/articles/x/'', [], ''/about/'']"
    by (simp add: located_body_hrefs_def body_selectors_def example_article_def)
  show ?thesis
    unfolding b by (simp add: example_env_def example_urljoin_def)
qed

text \<open>
  C3. An article whose date element holds a string that parses to a date before the
  cutoff yields no item, and the store is left as it was, so the URL is in it afterwards
  only if it was before. The selectors evaluated are those of the title and of the date:
  nothing is extracted after the date check. The callback ends with no error.
\<close>

theorem parse_article_before_cutoff:
  assumes "css_get r ''#single-article-date::text'' = Some d"
    and "parse_date (strip d) = Some p"
    and "date_less p cutoff_date"
  shows "yielded (parse_article e cutoff_date seen r) = []
         \<and> store (parse_article e cutoff_date seen r) = seen
         \<and> (SeenStore_has (store (parse_article e cutoff_date seen r)) (url r)
              \<longleftrightarrow> SeenStore_has seen (url r))
         \<and> queried (parse_article e cutoff_date seen r) =
             ''h1.page-title span::text''
             # (if truthy (css_get r ''h1.page-title span::text'') then []
                else [''h1.page-title::text''])
             @ [''#single-article-date::text'']
         \<and> raised (parse_article e cutoff_date seen r) = None"
proof -
  have "strip d \<noteq> []"
    using assms(2) parse_date_Nil by auto
  moreover from this have "d \<noteq> []"
    using strip_Nil by auto
  ultimately show ?thesis
    using assms by (simp add: parse_article_def Let_def truthy_def)
qed

theorem parse_article_before_cutoff_witness:
  "css_get (example_article ''21st March 2024'') ''#single-article-date::text''
     = Some ''21st March 2024''
   \<and> parse_date (strip ''21st March 2024'') = Some \<lparr>year = 2024, month = 3, day = 21\<rparr>
   \<and> date_less \<lparr>year = 2024, month = 3, day = 21\<rparr> \<lparr>year = 2025, month = 1, day = 1\<rparr>
   \<and> yielded (parse_article example_env \<lparr>year = 2025, month = 1, day = 1\<rparr> example_seen
                (example_article ''21st March 2024'')) = []
   \<and> store (parse_article example_env \<lparr>year = 2025, month = 1, day = 1\<rparr> example_seen
              (example_article ''21st March 2024'')) = example_seen"
proof -
  have h1: "css_get (example_article ''21st March 2024'') ''#single-article-date::text''
              = Some ''21st March 2024''"
    by (simp add: css_get_def example_article_def)
  have h2: "parse_date (strip ''21st March 2024'') = Some \<lparr>year = 2024, month = 3, day = 21\<rparr>"
    by code_simp
  have h3: "date_less \<lparr>year = 2024, month = 3, day = 21\<rparr> \<lparr>year = 2025, month = 1, day = 1\<rparr>"
    by (simp add: date_less_def)
  show ?thesis
    using h1 h2 h3 parse_article_before_cutoff [OF h1 h2 h3, of example_env example_seen]
    by simp
qed

text \<open>
  C4. An article whose date element is missing, or holds a string that does not parse,
  and whose body links all resolve (\<^verbatim>\<open>urljoin\<close> raises on no href of the body that is
  not empty), is not filtered by the cutoff, whatever the cutoff is: one item is yielded,
  for the URL of the response, its \<^verbatim>\<open>date_iso\<close> is \<^verbatim>\<open>None\<close>, the URL is in the store
  afterwards, and the callback ends with no error.
\<close>

theorem parse_article_unparsed_date:
  assumes "case css_get r ''#single-article-date::text'' of
             None \<Rightarrow> True | Some d \<Rightarrow> parse_date (strip d) = None"
    and "list_all (\<lambda>h. h = [] \<or> urljoin e (url r) h \<noteq> None) (located_body_hrefs r)"
  shows "\<exists>it. yielded (parse_article e cutoff_date seen r) = [it]
              \<and> item_url it = url r
              \<and> item_date_iso it = None
              \<and> SeenStore_has (store (parse_article e cutoff_date seen r)) (url r)
              \<and> raised (parse_article e cutoff_date seen r) = None"
proof -
  obtain links where io: "internal_of e (url r) (located_body_hrefs r) = Inr links"
    using internal_of_resolves [OF assms(2)] by blast
  have passes: "case css_get r ''#single-article-date::text'' of
                   None \<Rightarrow> True
                 | Some d \<Rightarrow> (case parse_date (strip d) of
                                None \<Rightarrow> True | Some p \<Rightarrow> \<not> date_less p cutoff_date)"
    using assms(1) by (auto split: option.splits)
  obtain it where it: "yielded (parse_article e cutoff_date seen r) = [it]" "item_url it = url r"
    and iso: "item_date_iso it =
                  (case css_get r ''#single-article-date::text'' of
                     None \<Rightarrow> None | Some d \<Rightarrow> map_option isoformat (parse_date (strip d)))"
    using parse_article_passed(1) [OF passes io] by blast
  have st: "store (parse_article e cutoff_date seen r) = SeenStore_add seen (url r) (utcnow e)"
    by (rule parse_article_passed(2) [OF passes io])
  have ra: "raised (parse_article e cutoff_date seen r) = None"
    by (rule parse_article_passed(3) [OF passes io])
  have none: "item_date_iso it = None"
    using assms(1) by (auto simp: iso split: option.splits)
  have "SeenStore_has (store (parse_article e cutoff_date seen r)) (url r)"
    by (simp add: st SeenStore_has_add)
  then show ?thesis
    using it none ra by blast
qed

theorem parse_article_unparsed_date_witness:
  "css_get (example_article ''Spring 2024'') ''#single-article-date::text'' = Some ''Spring 2024''
   \<and> parse_date (strip ''Spring 2024'') = None
   \<and> (\<exists>it. yielded (parse_article example_env \<lparr>year = 2025, month = 1, day = 1\<rparr> []
                      (example_article ''Spring 2024'')) = [it]
            \<and> item_url it = ''https://www.themanufacturer.com/articles/a/''
            \<and> item_date_iso it = None
            \<and> SeenStore_has
                 (store (parse_article example_env \<lparr>year = 2025, month = 1, day = 1\<rparr> []
                           (example_article ''Spring 2024'')))
                 ''https://www.themanufacturer.com/articles/a/'')"
proof -
  have h1: "css_get (example_article ''Spring 2024'') ''#single-article-date::text''
              = Some ''Spring 2024''"
    by (simp add: css_get_def example_article_def)
  have h2: "parse_date (strip ''Spring 2024'') = None"
    by code_simp
  have h: "case css_get (example_article ''Spring 2024'') ''#single-article-date::text'' of
             None \<Rightarrow> True | Some d \<Rightarrow> parse_date (strip d) = None"
    by (simp add: h1 h2)
  have u: "url (example_article ''Spring 2024'') = ''https://www.themanufacturer.com/articles/a/''"
    by (simp add: example_article_def)
  show ?thesis
    using h1 h2
      parse_article_unparsed_date [OF h example_article_resolves,
        of "\<lparr>year = 2025, month = 1, day = 1\<rparr>" "[]"]
    unfolding u by blast
qed

text \<open>
  C4, an article with a date that does not parse, for which no record is produced. The
  date element holds \<^verbatim>\<open>Spring 2024\<close>. The body holds the link \<^verbatim>\<open>https://[x\<close>, on
  which \<^verbatim>\<open>urljoin\<close> raises \<^verbatim>\<open>ValueError\<close>; \<^verbatim>\<open>absolutize\<close> does not catch it, so the
  callback raises in the loop over the links, before the item is built: nothing is
  yielded and the store, empty before, is empty afterwards.
\<close>

theorem parse_article_unparsed_date_raises:
  "css_get (example_article_bracket ''Spring 2024'') ''#single-article-date::text''
     = Some ''Spring 2024''
   \<and> parse_date (strip ''Spring 2024'') = None
   \<and> located_body_hrefs (example_article_bracket ''Spring 2024'')
       = [''/articles/x/'', ''https://[x'']
   \<and> urljoin example_env (url (example_article_bracket ''Spring 2024'')) ''https://[x'' = None
   \<and> parse_article example_env \<lparr>year = 2025, month = 1, day = 1\<rparr> []
        (example_article_bracket ''Spring 2024'') =
       \<lparr>queried = [''h1.page-title span::text'', ''h1.page-title::text'',
                   ''#single-article-date::text'', ''div.article-company a::text'',
                   ''div.single-article-content'', ''div.entry-content'',
                   ''div.post-terms ul.post-tags a::text'', ''a::attr(href)''],
        yielded = [], store = [], raised = Some ValueError\<rparr>"
proof -
  have h1: "css_get (example_article_bracket ''Spring 2024'') ''#single-article-date::text''
              = Some ''Spring 2024''"
    by (simp add: css_get_def example_article_bracket_def example_article_def)
  have h2: "parse_date (strip ''Spring 2024'') = None"
    by code_simp
  have h3: "located_body_hrefs (example_article_bracket ''Spring 2024'')
              = [''/articles/x/'', ''https://[x'']"
    by (simp add: located_body_hrefs_def body_selectors_def example_article_bracket_def
        example_article_def)
  have h4: "urljoin example_env (url (example_article_bracket ''Spring 2024'')) ''https://[x''
              = None"
    by (simp add: example_env_def example_urljoin_def)
  have h5: "parse_article example_env \<lparr>year = 2025, month = 1, day = 1\<rparr> []
        (example_article_bracket ''Spring 2024'') =
       \<lparr>queried = [''h1.page-title span::text'', ''h1.page-title::text'',
                   ''#single-article-date::text'', ''div.article-company a::text'',
                   ''div.single-article-content'', ''div.entry-content'',
                   ''div.post-terms ul.post-tags a::text'', ''a::attr(href)''],
        yielded = [], store = [], raised = Some ValueError\<rparr>"
    by code_simp
  show ?thesis
    using h1 h2 h3 h4 h5 by blast
qed




section \<open>Properties of the content normalizer\<close>

lemma startswith_iff: "startswith p s \<longleftrightarrow> (\<exists>t. s = p @ t)"
  by (induction p s rule: startswith.induct) auto

lemma delete_nbsp_Nil: "delete_nbsp [] = []"
  unfolding delete_nbsp_def by (subst str_replace.simps) simp

lemma delete_nbsp_skip: "delete_nbsp (''&nbsp;'' @ t) = delete_nbsp t"
  unfolding delete_nbsp_def by (subst str_replace.simps) simp

lemma delete_nbsp_keep:
  "\<not> startswith ''&nbsp;'' (c # cs) \<Longrightarrow> delete_nbsp (c # cs) = c # delete_nbsp cs"
  unfolding delete_nbsp_def by (subst str_replace.simps) auto

lemma delete_nbsp_cases:
  obtains (nil) "s = []"
  | (skip) t where "s = ''&nbsp;'' @ t"
  | (keep) c cs where "s = c # cs" "\<not> startswith ''&nbsp;'' s"
  by (cases s) (auto simp: startswith_iff)

lemma set_delete_nbsp: "set (delete_nbsp s) \<subseteq> set s"
proof (induction s rule: length_induct)
  case (1 s)
  show ?case
  proof (cases s rule: delete_nbsp_cases)
    case nil
    then show ?thesis by (simp add: delete_nbsp_Nil)
  next
    case (skip t)
    have "set (delete_nbsp t) \<subseteq> set t"
      using 1 skip by simp
    then show ?thesis
      unfolding skip delete_nbsp_skip by auto
  next
    case (keep c cs)
    have "set (delete_nbsp cs) \<subseteq> set cs"
      using 1 keep by simp
    then show ?thesis
      using keep by (auto simp: delete_nbsp_keep)
  qed
qed

lemma set_sub_hspace: "set (sub_hspace s) \<subseteq> insert (CHR '' '') (set s)"
proof (induction s rule: sub_hspace.induct)
  case 1
  then show ?case by simp
next
  case (2 c cs)
  have "set (dropWhile hspace cs) \<subseteq> set cs"
    by (auto dest: set_dropWhileD)
  then show ?case using 2 by auto
qed

lemma set_sub_newlines: "set (sub_newlines s) \<subseteq> set s"
proof (induction s rule: sub_newlines.induct)
  case 1
  then show ?case by simp
next
  case (2 c cs)
  have "set (dropWhile (\<lambda>x. x = nl) cs) \<subseteq> set cs"
    by (auto dest: set_dropWhileD)
  then show ?case using 2 by auto
qed

declare dropWhile_eq_Nil_conv [simp del]

lemma run_dropWhile: "takeWhile P (dropWhile P xs) = []"
  by (induction xs) auto

lemma hspace_isspace: "hspace c \<Longrightarrow> isspace c"
  by (auto simp: hspace_def isspace_def)

lemma nl_isspace: "isspace nl"
  by (simp add: isspace_def)

lemma dropWhile_hd: "dropWhile P xs \<noteq> [] \<Longrightarrow> \<not> P (hd (dropWhile P xs))"
  by (metis hd_dropWhile)

lemma trimmed_strip: "trimmed (strip s)"
proof -
  let ?u = "dropWhile isspace s"
  let ?v = "dropWhile isspace (rev ?u)"
  show ?thesis
  proof (cases "?v = []")
    case True
    then show ?thesis by (simp add: trimmed_def strip_def)
  next
    case False
    then have u: "?u \<noteq> []" by auto
    have l: "\<not> isspace (hd ?v)"
      using False by (rule dropWhile_hd)
    have "\<not> isspace (hd ?u)"
      using u by (rule dropWhile_hd)
    then have "\<not> isspace (last (rev ?u))"
      using u by (simp add: last_rev)
    moreover have "last ?v = last (rev ?u)"
      using False by (metis append_self_conv2 last_appendR takeWhile_dropWhile_id)
    ultimately have "\<not> isspace (last ?v)" by simp
    then show ?thesis
      using False l by (simp add: trimmed_def strip_def hd_rev last_rev)
  qed
qed

lemma strip_trimmed: "trimmed s \<Longrightarrow> strip s = s"
proof (cases s)
  case Nil
  then show "strip s = s" by (simp add: strip_def)
next
  case (Cons c cs)
  assume "trimmed s"
  then have a: "\<not> isspace c" and b: "\<not> isspace (last s)"
    by (auto simp: trimmed_def Cons)
  have "dropWhile isspace s = s"
    using a by (simp add: Cons)
  moreover have "dropWhile isspace (rev s) = rev s"
    using b Cons by (cases "rev s") (auto simp: hd_rev [symmetric])
  ultimately show "strip s = s"
    by (simp add: strip_def)
qed

lemma sub_hspace_Nil_iff: "sub_hspace s = [] \<longleftrightarrow> s = []"
  by (cases s) auto

lemma sub_newlines_Nil_iff: "sub_newlines s = [] \<longleftrightarrow> s = []"
  by (cases s) auto

lemma hd_sub_hspace: "s \<noteq> [] \<Longrightarrow> \<not> hspace (hd s) \<Longrightarrow> hd (sub_hspace s) = hd s"
  by (cases s) auto

lemma hd_sub_newlines: "s \<noteq> [] \<Longrightarrow> hd (sub_newlines s) = hd s"
  by (cases s) auto

lemma last_dropWhile: "dropWhile P xs \<noteq> [] \<Longrightarrow> last (dropWhile P xs) = last xs"
  by (metis append_self_conv2 last_appendR takeWhile_dropWhile_id)

lemma dropWhile_Nil_last: "xs \<noteq> [] \<Longrightarrow> dropWhile P xs = [] \<Longrightarrow> P (last xs)"
  by (simp add: dropWhile_eq_Nil_conv)

lemma last_sub_hspace: "s \<noteq> [] \<Longrightarrow> \<not> hspace (last s) \<Longrightarrow> last (sub_hspace s) = last s"
proof (induction s rule: sub_hspace.induct)
  case 1
  then show ?case by simp
next
  case (2 c cs)
  show ?case
  proof (cases "hspace c")
    case True
    then have cs: "cs \<noteq> []" using "2.prems" by auto
    then have l: "\<not> hspace (last cs)" using "2.prems" by simp
    then have d: "dropWhile hspace cs \<noteq> []"
      using cs dropWhile_Nil_last by blast
    have "last (dropWhile hspace cs) = last cs"
      using d by (rule last_dropWhile)
    then have e: "last (sub_hspace (dropWhile hspace cs)) = last cs"
      using "2.IH"(1) [OF True d] l by simp
    have ne: "sub_hspace (dropWhile hspace cs) \<noteq> []"
      using d by (simp only: sub_hspace_Nil_iff not_False_eq_True)
    have "last (sub_hspace (c # cs)) = last (sub_hspace (dropWhile hspace cs))"
      using True ne by (simp del: dropWhile_eq_Nil_conv)
    then show ?thesis
      using e cs by simp
  next
    case False
    then show ?thesis
      using 2 by (cases cs) (auto simp: sub_hspace_Nil_iff)
  qed
qed

lemma last_sub_newlines: "s \<noteq> [] \<Longrightarrow> last (sub_newlines s) = last s"
proof (induction s rule: sub_newlines.induct)
  case 1
  then show ?case by simp
next
  case (2 c cs)
  let ?collapse = "c = nl \<and> 2 \<le> length (takeWhile (\<lambda>x. x = nl) cs)"
  show ?case
  proof (cases ?collapse)
    case True
    then have cs: "cs \<noteq> []" by auto
    show ?thesis
    proof (cases "dropWhile (\<lambda>x. x = nl) cs = []")
      case d: True
      have "last cs = nl"
        using dropWhile_Nil_last [OF cs d] .
      moreover have "sub_newlines (c # cs) = [nl, nl]"
        using True d by (simp del: dropWhile_eq_Nil_conv)
      ultimately show ?thesis using cs by simp
    next
      case d: False
      have "last (dropWhile (\<lambda>x. x = nl) cs) = last cs"
        using d by (rule last_dropWhile)
      then have e: "last (sub_newlines (dropWhile (\<lambda>x. x = nl) cs)) = last cs"
        using "2.IH"(1) [OF True d] by simp
      have ne: "sub_newlines (dropWhile (\<lambda>x. x = nl) cs) \<noteq> []"
        using d by (simp only: sub_newlines_Nil_iff not_False_eq_True)
      have "last (sub_newlines (c # cs)) = last (sub_newlines (dropWhile (\<lambda>x. x = nl) cs))"
        using True ne by (simp del: dropWhile_eq_Nil_conv)
      then show ?thesis
        using e cs by simp
    qed
  next
    case False
    then show ?thesis
      using 2 by (cases cs) (auto simp: sub_newlines_Nil_iff)
  qed
qed

lemma trimmed_sub_hspace: "trimmed s \<Longrightarrow> trimmed (sub_hspace s)"
proof (cases "s = []")
  case True
  then show ?thesis by (simp add: trimmed_def)
next
  case False
  assume "trimmed s"
  then have a: "\<not> isspace (hd s)" and b: "\<not> isspace (last s)"
    using False by (auto simp: trimmed_def)
  have "\<not> hspace (hd s)" and "\<not> hspace (last s)"
    using a b hspace_isspace by blast+
  then have "hd (sub_hspace s) = hd s" and "last (sub_hspace s) = last s"
    using False hd_sub_hspace last_sub_hspace by blast+
  then show ?thesis
    using a b by (simp add: trimmed_def)
qed

lemma trimmed_sub_newlines: "trimmed s \<Longrightarrow> trimmed (sub_newlines s)"
  by (auto simp: trimmed_def sub_newlines_Nil_iff hd_sub_newlines last_sub_newlines)

lemma hspace_normal_id: "hspace_normal s \<Longrightarrow> sub_hspace s = s"
proof (induction s)
  case Nil
  then show ?case by simp
next
  case (Cons c cs)
  then have "hspace c \<Longrightarrow> dropWhile hspace cs = cs"
    by (cases cs) auto
  then show ?case using Cons by auto
qed

lemma hspace_normal_sub_hspace: "hspace_normal (sub_hspace s)"
proof (induction s rule: sub_hspace.induct)
  case 1
  then show ?case by simp
next
  case (2 c cs)
  show ?case
  proof (cases "hspace c")
    case True
    let ?d = "dropWhile hspace cs"
    have "sub_hspace ?d = [] \<or> \<not> hspace (hd (sub_hspace ?d))"
    proof (cases "?d = []")
      case True
      then show ?thesis by simp
    next
      case False
      then have h: "\<not> hspace (hd ?d)" by (rule dropWhile_hd)
      show ?thesis
        using hd_sub_hspace [OF False h] h by simp
    qed
    moreover have "hspace_normal (sub_hspace ?d)"
      using 2 True by simp
    moreover have "sub_hspace (c # cs) = CHR '' '' # sub_hspace ?d"
      using True by simp
    ultimately show ?thesis
      by (simp del: dropWhile_eq_Nil_conv sub_hspace.simps)
  next
    case False
    then show ?thesis using 2 by simp
  qed
qed

lemma hspace_nl: "\<not> hspace nl"
  by (simp add: hspace_def)

lemma hspace_normal_dropWhile: "hspace_normal s \<Longrightarrow> hspace_normal (dropWhile P s)"
  by (induction s) auto

lemma hspace_normal_sub_newlines: "hspace_normal s \<Longrightarrow> hspace_normal (sub_newlines s)"
proof (induction s rule: sub_newlines.induct)
  case 1
  then show ?case by simp
next
  case (2 c cs)
  let ?collapse = "c = nl \<and> 2 \<le> length (takeWhile (\<lambda>x. x = nl) cs)"
  show ?case
  proof (cases ?collapse)
    case True
    have "hspace_normal (dropWhile (\<lambda>x. x = nl) cs)"
      using "2.prems" hspace_normal_dropWhile by simp
    then show ?thesis
      using 2 True by (simp add: hspace_nl)
  next
    case False
    have "hspace_normal (sub_newlines cs)"
      using 2 False by simp
    moreover have "cs \<noteq> [] \<Longrightarrow> hd (sub_newlines cs) = hd cs"
      by (rule hd_sub_newlines)
    ultimately show ?thesis
      using False "2.prems" by (auto simp: sub_newlines_Nil_iff)
  qed
qed

lemma newline_normal_id: "newline_normal s \<Longrightarrow> sub_newlines s = s"
  by (induction s) auto

lemma run_sub_newlines:
  "length (takeWhile (\<lambda>x. x = nl) (sub_newlines s)) \<le> length (takeWhile (\<lambda>x. x = nl) s)"
proof (induction s rule: sub_newlines.induct)
  case 1
  then show ?case by simp
next
  case (2 c cs)
  let ?collapse = "c = nl \<and> 2 \<le> length (takeWhile (\<lambda>x. x = nl) cs)"
  show ?case
  proof (cases ?collapse)
    case True
    let ?d = "dropWhile (\<lambda>x. x = nl) cs"
    have "length (takeWhile (\<lambda>x. x = nl) (sub_newlines ?d)) \<le> length (takeWhile (\<lambda>x. x = nl) ?d)"
      using 2 True by simp
    then have "takeWhile (\<lambda>x. x = nl) (sub_newlines ?d) = []"
      by (simp add: run_dropWhile)
    then show ?thesis
      using True by simp
  next
    case False
    then show ?thesis
      using 2 by auto
  qed
qed

lemma newline_normal_sub_newlines: "newline_normal (sub_newlines s)"
proof (induction s rule: sub_newlines.induct)
  case 1
  then show ?case by simp
next
  case (2 c cs)
  let ?collapse = "c = nl \<and> 2 \<le> length (takeWhile (\<lambda>x. x = nl) cs)"
  show ?case
  proof (cases ?collapse)
    case True
    let ?d = "dropWhile (\<lambda>x. x = nl) cs"
    have "length (takeWhile (\<lambda>x. x = nl) (sub_newlines ?d)) \<le> length (takeWhile (\<lambda>x. x = nl) ?d)"
      by (rule run_sub_newlines)
    then have "takeWhile (\<lambda>x. x = nl) (sub_newlines ?d) = []"
      by (simp add: run_dropWhile)
    then show ?thesis
      using 2 True by simp
  next
    case False
    have "newline_normal (sub_newlines cs)"
      using 2 False by simp
    then show ?thesis
      using False run_sub_newlines [of cs] by auto
  qed
qed

lemma delete_nbsp_id: "\<not> py_in ''&nbsp;'' s \<Longrightarrow> delete_nbsp s = s"
proof (induction s)
  case Nil
  then show ?case by (simp add: delete_nbsp_Nil)
next
  case (Cons c cs)
  then have "\<not> startswith ''&nbsp;'' (c # cs)" and "\<not> py_in ''&nbsp;'' cs"
    by simp_all
  then show ?case
    using Cons.IH by (simp add: delete_nbsp_keep)
qed

lemma length_delete_nbsp: "length (delete_nbsp s) \<le> length s"
proof (induction s rule: length_induct)
  case (1 s)
  show ?case
  proof (cases s rule: delete_nbsp_cases)
    case nil
    then show ?thesis by (simp add: delete_nbsp_Nil)
  next
    case (skip t)
    have "length (delete_nbsp t) \<le> length t"
      using 1 skip by simp
    then show ?thesis
      unfolding skip delete_nbsp_skip by simp
  next
    case (keep c cs)
    have "length (delete_nbsp cs) \<le> length cs"
      using 1 keep by simp
    then show ?thesis
      using keep by (simp add: delete_nbsp_keep)
  qed
qed

lemma length_delete_nbsp_less: "py_in ''&nbsp;'' s \<Longrightarrow> length (delete_nbsp s) < length s"
proof (induction s)
  case Nil
  then show ?case by simp
next
  case (Cons c cs)
  show ?case
  proof (cases "startswith ''&nbsp;'' (c # cs)")
    case True
    then obtain t where t: "c # cs = ''&nbsp;'' @ t"
      by (auto simp: startswith_iff)
    have "length (delete_nbsp t) \<le> length t"
      by (rule length_delete_nbsp)
    then show ?thesis
      unfolding t delete_nbsp_skip by simp
  next
    case False
    then have "py_in ''&nbsp;'' cs"
      using Cons.prems by auto
    then show ?thesis
      using Cons.IH False by (simp add: delete_nbsp_keep)
  qed
qed

lemma length_strip: "length (strip s) \<le> length s"
proof -
  have "length (dropWhile isspace (rev (dropWhile isspace s))) \<le> length (dropWhile isspace s)"
    using length_dropWhile_le [of isspace "rev (dropWhile isspace s)"] by simp
  also have "\<dots> \<le> length s"
    by (rule length_dropWhile_le)
  finally show ?thesis
    by (simp add: strip_def)
qed

lemma length_sub_hspace: "length (sub_hspace s) \<le> length s"
proof (induction s rule: sub_hspace.induct)
  case 1
  then show ?case by simp
next
  case (2 c cs)
  have "length (dropWhile hspace cs) \<le> length cs"
    by (rule length_dropWhile_le)
  then show ?case using 2 by auto
qed

lemma length_sub_newlines: "length (sub_newlines s) \<le> length s"
proof (induction s rule: sub_newlines.induct)
  case 1
  then show ?case by simp
next
  case (2 c cs)
  let ?collapse = "c = nl \<and> 2 \<le> length (takeWhile (\<lambda>x. x = nl) cs)"
  show ?case
  proof (cases ?collapse)
    case True
    have "length cs = length (takeWhile (\<lambda>x. x = nl) cs) + length (dropWhile (\<lambda>x. x = nl) cs)"
      by (metis length_append takeWhile_dropWhile_id)
    then have "length (dropWhile (\<lambda>x. x = nl) cs) + 2 \<le> length cs"
      using True by simp
    then show ?thesis
      using 2 True by simp
  next
    case False
    then show ?thesis using 2 by auto
  qed
qed

lemma to_plain_text_eq:
  "to_plain_text rt x =
     (if x = [] then [] else sub_newlines (sub_hspace (strip (delete_nbsp (rt x)))))"
  by (simp add: to_plain_text_def replace_escape_chars_def delete_nbsp_def [symmetric])

lemma trimmed_to_plain_text: "trimmed (to_plain_text rt x)"
proof (cases "x = []")
  case True
  then show ?thesis
    by (simp add: to_plain_text_eq trimmed_def)
next
  case False
  have "trimmed (sub_newlines (sub_hspace (strip (delete_nbsp (rt x)))))"
    by (intro trimmed_sub_newlines trimmed_sub_hspace trimmed_strip)
  then show ?thesis
    using False by (simp add: to_plain_text_eq)
qed

lemma hspace_normal_to_plain_text: "hspace_normal (to_plain_text rt x)"
proof (cases "x = []")
  case True
  then show ?thesis
    by (simp add: to_plain_text_eq)
next
  case False
  have "hspace_normal (sub_newlines (sub_hspace (strip (delete_nbsp (rt x)))))"
    by (intro hspace_normal_sub_newlines hspace_normal_sub_hspace)
  then show ?thesis
    using False by (simp add: to_plain_text_eq)
qed

lemma newline_normal_to_plain_text: "newline_normal (to_plain_text rt x)"
proof (cases "x = []")
  case True
  then show ?thesis
    by (simp add: to_plain_text_eq)
next
  case False
  have "newline_normal (sub_newlines (sub_hspace (strip (delete_nbsp (rt x)))))"
    by (rule newline_normal_sub_newlines)
  then show ?thesis
    using False by (simp add: to_plain_text_eq)
qed

lemma set_strip: "set (strip s) \<subseteq> set s"
proof -
  have "set (strip s) \<subseteq> set (dropWhile isspace s)"
    unfolding strip_def using set_dropWhileD by fastforce
  also have "\<dots> \<subseteq> set s"
    using set_dropWhileD by fastforce
  finally show ?thesis .
qed

lemma set_to_plain_text: "set (to_plain_text rt x) \<subseteq> insert (CHR '' '') (set (rt x))"
proof (cases "x = []")
  case True
  then show ?thesis by (simp add: to_plain_text_eq)
next
  case False
  have "set (sub_newlines (sub_hspace (strip (delete_nbsp (rt x)))))
          \<subseteq> set (sub_hspace (strip (delete_nbsp (rt x))))"
    by (rule set_sub_newlines)
  also have "\<dots> \<subseteq> insert (CHR '' '') (set (strip (delete_nbsp (rt x))))"
    by (rule set_sub_hspace)
  also have "\<dots> \<subseteq> insert (CHR '' '') (set (delete_nbsp (rt x)))"
    using set_strip [of "delete_nbsp (rt x)"] by blast
  also have "\<dots> \<subseteq> insert (CHR '' '') (set (rt x))"
    using set_delete_nbsp [of "rt x"] by blast
  finally show ?thesis
    using False by (simp add: to_plain_text_eq)
qed

lemma to_plain_text_plain:
  assumes "leaves_plain_text rt" and "CHR ''<'' \<notin> set x"
  shows "rt (to_plain_text rt x) = to_plain_text rt x"
proof -
  have "rt x = x"
    using assms by (simp add: leaves_plain_text_def)
  then have "CHR ''<'' \<notin> set (to_plain_text rt x)"
    using set_to_plain_text [of rt x] assms(2) by auto
  then show ?thesis
    using assms(1) by (simp add: leaves_plain_text_def)
qed

lemma to_plain_text_shrinks:
  assumes "rt (to_plain_text rt x) = to_plain_text rt x"
    and "py_in ''&nbsp;'' (to_plain_text rt x)"
  shows "length (to_plain_text rt (to_plain_text rt x)) < length (to_plain_text rt x)"
proof -
  let ?y = "to_plain_text rt x"
  let ?z = "delete_nbsp (rt ?y)"
  have ne: "?y \<noteq> []"
    using assms(2) by auto
  have "length (sub_newlines (sub_hspace (strip ?z))) \<le> length (sub_hspace (strip ?z))"
    by (rule length_sub_newlines)
  also have "\<dots> \<le> length (strip ?z)"
    by (rule length_sub_hspace)
  also have "\<dots> \<le> length ?z"
    by (rule length_strip)
  finally have "length (to_plain_text rt ?y) \<le> length ?z"
    using ne by (simp only: to_plain_text_eq [of rt ?y] if_False)
  also have "\<dots> = length (delete_nbsp ?y)"
    by (simp only: assms(1))
  also have "\<dots> < length ?y"
    using assms(2) by (rule length_delete_nbsp_less)
  finally show ?thesis .
qed

lemma to_plain_text_fixed:
  assumes "rt (to_plain_text rt x) = to_plain_text rt x"
    and "\<not> py_in ''&nbsp;'' (to_plain_text rt x)"
  shows "to_plain_text rt (to_plain_text rt x) = to_plain_text rt x"
proof (cases "to_plain_text rt x = []")
  case True
  then show ?thesis
    by (simp add: to_plain_text_eq [of rt "[]"])
next
  case False
  let ?y = "to_plain_text rt x"
  have "to_plain_text rt ?y = sub_newlines (sub_hspace (strip (delete_nbsp (rt ?y))))"
    using False by (simp only: to_plain_text_eq [of rt ?y] if_False)
  also have "rt ?y = ?y"
    by (rule assms(1))
  also have "delete_nbsp ?y = ?y"
    using assms(2) by (rule delete_nbsp_id)
  also have "strip ?y = ?y"
    by (rule strip_trimmed [OF trimmed_to_plain_text])
  also have "sub_hspace ?y = ?y"
    by (rule hspace_normal_id [OF hspace_normal_to_plain_text])
  also have "sub_newlines ?y = ?y"
    by (rule newline_normal_id [OF newline_normal_to_plain_text])
  finally show ?thesis .
qed

lemma example_leaves_plain_text: "leaves_plain_text example_remove_tags"
  by (auto simp: leaves_plain_text_def example_remove_tags_def)

lemma to_plain_text_nb:
  assumes "leaves_plain_text rt"
  shows "to_plain_text rt ''&nb&nbsp;sp;'' = ''&nbsp;''"
    and "to_plain_text rt ''&nbsp;'' = []"
proof -
  have a: "rt ''&nb&nbsp;sp;'' = ''&nb&nbsp;sp;''" and b: "rt ''&nbsp;'' = ''&nbsp;''"
    using assms by (simp_all add: leaves_plain_text_def)
  have c: "sub_newlines (sub_hspace (strip (delete_nbsp ''&nb&nbsp;sp;''))) = ''&nbsp;''"
    by code_simp
  have d: "sub_newlines (sub_hspace (strip (delete_nbsp ''&nbsp;''))) = []"
    by code_simp
  show "to_plain_text rt ''&nb&nbsp;sp;'' = ''&nbsp;''"
    unfolding to_plain_text_eq a c by simp
  show "to_plain_text rt ''&nbsp;'' = []"
    unfolding to_plain_text_eq b d by simp
qed

lemma startswith_before: "startswith q (p @ a # v) \<Longrightarrow> a \<notin> set q \<Longrightarrow> startswith q p"
  by (induction q p rule: startswith.induct) auto

lemma py_in_suffix: "py_in q b \<Longrightarrow> py_in q (a @ b)"
proof (induction a)
  case Nil
  then show ?case by simp
next
  case (Cons c a)
  then show ?case by simp
qed

lemma join_Cons: "ps \<noteq> [] \<Longrightarrow> join sep (p # ps) = p @ sep @ join sep ps"
  by (cases ps) simp_all

lemma join_Cons_Cons: "join sep ((c # p) # ps) = c # join sep (p # ps)"
  by (cases ps) simp_all

lemma delete_nbsp_piece:
  "\<not> py_in ''&nbsp;'' p \<Longrightarrow> delete_nbsp (p @ ''&nbsp;'' @ u) = p @ delete_nbsp u"
proof (induction p)
  case Nil
  show ?case
    by (simp only: append_Nil delete_nbsp_skip)
next
  case (Cons c p)
  have n1: "\<not> startswith ''&nbsp;'' (c # p)" and n2: "\<not> py_in ''&nbsp;'' p"
    using Cons.prems by simp_all
  have n3: "\<not> startswith ''&nbsp;'' (c # (p @ ''&nbsp;'' @ u))"
  proof
    assume "startswith ''&nbsp;'' (c # (p @ ''&nbsp;'' @ u))"
    then have c: "c = CHR ''&''" and "startswith ''nbsp;'' (p @ CHR ''&'' # (''nbsp;'' @ u))"
      by auto
    then have "startswith ''nbsp;'' p"
      using startswith_before [of "''nbsp;''" p "CHR ''&''" "''nbsp;'' @ u"] by simp
    with c n1 show False
      by simp
  qed
  have "delete_nbsp (c # (p @ ''&nbsp;'' @ u)) = c # delete_nbsp (p @ ''&nbsp;'' @ u)"
    using n3 by (rule delete_nbsp_keep)
  also have "\<dots> = c # (p @ delete_nbsp u)"
    by (simp only: Cons.IH [OF n2])
  finally show ?case
    by (simp only: append_Cons)
qed

lemma delete_nbsp_join:
  "list_all (\<lambda>p. \<not> py_in ''&nbsp;'' p) ps \<Longrightarrow> delete_nbsp (join ''&nbsp;'' ps) = concat ps"
proof (induction "''&nbsp;''" ps rule: join.induct)
  case 1
  show ?case
    by (simp add: delete_nbsp_Nil)
next
  case (2 x)
  then have "\<not> py_in ''&nbsp;'' x"
    by simp
  then have "delete_nbsp x = x"
    by (rule delete_nbsp_id)
  then show ?case
    by simp
next
  case (3 x y ys)
  have x: "\<not> py_in ''&nbsp;'' x" and r: "list_all (\<lambda>p. \<not> py_in ''&nbsp;'' p) (y # ys)"
    using "3.prems" by simp_all
  have "delete_nbsp (join ''&nbsp;'' (x # y # ys))
          = delete_nbsp (x @ ''&nbsp;'' @ join ''&nbsp;'' (y # ys))"
    by (simp only: join.simps)
  also have "\<dots> = x @ delete_nbsp (join ''&nbsp;'' (y # ys))"
    using x by (rule delete_nbsp_piece)
  also have "\<dots> = x @ concat (y # ys)"
    by (simp only: "3.hyps" [OF r])
  finally show ?case
    by simp
qed

lemma pieces_exist:
  "\<exists>pieces. pieces \<noteq> [] \<and> list_all (\<lambda>p. \<not> py_in ''&nbsp;'' p) pieces
            \<and> t = join ''&nbsp;'' pieces"
proof (induction t)
  case Nil
  have "[[]] \<noteq> [] \<and> list_all (\<lambda>p. \<not> py_in ''&nbsp;'' p) [[]] \<and> [] = join ''&nbsp;'' [[]]"
    by simp
  then show ?case
    by blast
next
  case (Cons c t)
  then obtain p ps where ok: "list_all (\<lambda>p. \<not> py_in ''&nbsp;'' p) (p # ps)"
    and t: "t = join ''&nbsp;'' (p # ps)"
    by (metis list.exhaust)
  have p: "\<not> py_in ''&nbsp;'' p" and ps: "list_all (\<lambda>p. \<not> py_in ''&nbsp;'' p) ps"
    using ok by simp_all
  show ?case
  proof (cases "startswith ''&nbsp;'' (c # p)")
    case False
    then have "\<not> py_in ''&nbsp;'' (c # p)"
      using p by simp
    then have "list_all (\<lambda>p. \<not> py_in ''&nbsp;'' p) ((c # p) # ps)"
      using ps by simp
    moreover have "c # t = join ''&nbsp;'' ((c # p) # ps)"
      by (simp only: t join_Cons_Cons)
    ultimately show ?thesis
      by blast
  next
    case True
    then obtain q where q: "c # p = ''&nbsp;'' @ q"
      by (auto simp only: startswith_iff)
    then have "p = ''nbsp;'' @ q"
      by simp
    then have "\<not> py_in ''&nbsp;'' q"
      using p py_in_suffix [of "''&nbsp;''" q "''nbsp;''"] by auto
    then have "list_all (\<lambda>p. \<not> py_in ''&nbsp;'' p) ([] # q # ps)"
      using ps by simp
    moreover have "c # t = join ''&nbsp;'' ([] # q # ps)"
    proof -
      have "c # t = join ''&nbsp;'' ((c # p) # ps)"
        by (simp only: t join_Cons_Cons)
      also have "\<dots> = join ''&nbsp;'' ((''&nbsp;'' @ q) # ps)"
        by (simp only: q)
      also have "\<dots> = join ''&nbsp;'' ([] # q # ps)"
        by (cases ps) simp_all
      finally show ?thesis .
    qed
    ultimately show ?thesis
      by blast
  qed
qed

lemma to_plain_text_a_b:
  assumes "leaves_plain_text rt"
  shows "to_plain_text rt ''a&nbsp;b'' = ''ab''"
proof -
  have a: "rt ''a&nbsp;b'' = ''a&nbsp;b''"
    using assms by (simp add: leaves_plain_text_def)
  have c: "sub_newlines (sub_hspace (strip (delete_nbsp ''a&nbsp;b''))) = ''ab''"
    by code_simp
  show ?thesis
    unfolding to_plain_text_eq a c by simp
qed

text \<open>
  C6. Whatever \<^verbatim>\<open>remove_tags\<close> does: when it leaves the normal form of an input as it
  is, normalizing the normal form gives it back exactly when it holds no literal
  \<^verbatim>\<open>&nbsp;\<close>. It leaves the normal form as it is whenever the input has no \<^verbatim>\<open><\<close> in it,
  for then neither has the normal form.
\<close>

theorem to_plain_text_idempotent_iff:
  "(rt (to_plain_text rt x) = to_plain_text rt x \<longrightarrow>
      (to_plain_text rt (to_plain_text rt x) = to_plain_text rt x
         \<longleftrightarrow> \<not> py_in ''&nbsp;'' (to_plain_text rt x)))
   \<and> (leaves_plain_text rt \<and> CHR ''<'' \<notin> set x \<longrightarrow>
        rt (to_plain_text rt x) = to_plain_text rt x)"
proof (intro conjI impI)
  assume fx: "rt (to_plain_text rt x) = to_plain_text rt x"
  show "to_plain_text rt (to_plain_text rt x) = to_plain_text rt x
          \<longleftrightarrow> \<not> py_in ''&nbsp;'' (to_plain_text rt x)"
  proof
    assume eq: "to_plain_text rt (to_plain_text rt x) = to_plain_text rt x"
    show "\<not> py_in ''&nbsp;'' (to_plain_text rt x)"
    proof
      assume "py_in ''&nbsp;'' (to_plain_text rt x)"
      with fx have "length (to_plain_text rt (to_plain_text rt x)) < length (to_plain_text rt x)"
        by (rule to_plain_text_shrinks)
      then show False
        by (simp only: eq less_irrefl)
    qed
  next
    assume "\<not> py_in ''&nbsp;'' (to_plain_text rt x)"
    with fx show "to_plain_text rt (to_plain_text rt x) = to_plain_text rt x"
      by (rule to_plain_text_fixed)
  qed
next
  assume "leaves_plain_text rt \<and> CHR ''<'' \<notin> set x"
  then show "rt (to_plain_text rt x) = to_plain_text rt x"
    using to_plain_text_plain by blast
qed

theorem to_plain_text_idempotent_iff_witness:
  "to_plain_text example_remove_tags ''a &nbsp; b'' = ''a b''
   \<and> to_plain_text example_remove_tags (to_plain_text example_remove_tags ''a &nbsp; b'') = ''a b''
   \<and> to_plain_text example_remove_tags ''&nb&nbsp;sp;'' = ''&nbsp;''
   \<and> to_plain_text example_remove_tags (to_plain_text example_remove_tags ''&nb&nbsp;sp;'') = []"
proof -
  let ?rt = example_remove_tags
  have lp: "leaves_plain_text ?rt"
    by (rule example_leaves_plain_text)
  have a: "to_plain_text ?rt ''a &nbsp; b'' = ''a b''"
    by code_simp
  have n: "\<not> py_in ''&nbsp;'' ''a b''"
    by code_simp
  have l: "CHR ''<'' \<notin> set ''a &nbsp; b''"
    by simp
  have b: "to_plain_text ?rt (to_plain_text ?rt ''a &nbsp; b'') = to_plain_text ?rt ''a &nbsp; b''"
    using to_plain_text_idempotent_iff [of ?rt "''a &nbsp; b''"] lp l n
    unfolding a by blast
  have c: "to_plain_text ?rt ''&nb&nbsp;sp;'' = ''&nbsp;''"
    by (rule to_plain_text_nb(1) [OF lp])
  have d: "to_plain_text ?rt ''&nbsp;'' = []"
    by (rule to_plain_text_nb(2) [OF lp])
  show ?thesis
    using a b c d by simp
qed

text \<open>
  C6, an input at which the normalizer is not idempotent, whatever \<^verbatim>\<open>remove_tags\<close> does
  to tags. \<^verbatim>\<open>&nb&nbsp;sp;\<close> has no tag in it. Deleting the \<^verbatim>\<open>&nbsp;\<close> inside it leaves
  the text \<^verbatim>\<open>&nbsp;\<close>, which is its normal form; normalizing that gives the empty
  string.
\<close>

theorem to_plain_text_not_idempotent:
  "\<not> (\<exists>rt. leaves_plain_text rt
           \<and> to_plain_text rt (to_plain_text rt ''&nb&nbsp;sp;'') = to_plain_text rt ''&nb&nbsp;sp;'')
   \<and> to_plain_text example_remove_tags ''&nb&nbsp;sp;'' = ''&nbsp;''
   \<and> to_plain_text example_remove_tags (to_plain_text example_remove_tags ''&nb&nbsp;sp;'') = []"
proof -
  have "to_plain_text rt (to_plain_text rt ''&nb&nbsp;sp;'') \<noteq> to_plain_text rt ''&nb&nbsp;sp;''"
    if "leaves_plain_text rt" for rt
    unfolding to_plain_text_nb [OF that] by simp
  moreover have "to_plain_text example_remove_tags ''&nb&nbsp;sp;'' = ''&nbsp;''"
    by (rule to_plain_text_nb(1) [OF example_leaves_plain_text])
  moreover have "to_plain_text example_remove_tags (to_plain_text example_remove_tags ''&nb&nbsp;sp;'') = []"
    unfolding to_plain_text_nb [OF example_leaves_plain_text] by simp
  ultimately show ?thesis
    by blast
qed

text \<open>
  C7. Every text is a list of pieces with no \<^verbatim>\<open>&nbsp;\<close> in them, joined by \<^verbatim>\<open>&nbsp;\<close>:
  the pieces are what lies between its occurrences of \<^verbatim>\<open>&nbsp;\<close>. The call of
  \<^verbatim>\<open>replace_escape_chars\<close> removes each occurrence and puts nothing in its place: it
  returns the pieces one after the other. So for every input that is not empty, when the
  text that \<^verbatim>\<open>remove_tags\<close> returns is made of the pieces \<open>ps\<close>, the normalizer returns
  the pieces one after the other, stripped and with its two substitutions applied.
\<close>

theorem to_plain_text_deletes_nbsp:
  "(\<exists>pieces. pieces \<noteq> [] \<and> list_all (\<lambda>p. \<not> py_in ''&nbsp;'' p) pieces
             \<and> t = join ''&nbsp;'' pieces)
   \<and> (list_all (\<lambda>p. \<not> py_in ''&nbsp;'' p) ps \<longrightarrow>
        replace_escape_chars (join ''&nbsp;'' ps) [''&nbsp;''] [] = concat ps
        \<and> (html \<noteq> [] \<and> rt html = join ''&nbsp;'' ps \<longrightarrow>
             to_plain_text rt html = sub_newlines (sub_hspace (strip (concat ps)))))"
proof (intro conjI impI)
  show "\<exists>pieces. pieces \<noteq> [] \<and> list_all (\<lambda>p. \<not> py_in ''&nbsp;'' p) pieces
                 \<and> t = join ''&nbsp;'' pieces"
    by (rule pieces_exist)
next
  assume ok: "list_all (\<lambda>p. \<not> py_in ''&nbsp;'' p) ps"
  have r: "replace_escape_chars s [''&nbsp;''] [] = delete_nbsp s" for s
    by (simp add: replace_escape_chars_def delete_nbsp_def)
  show "replace_escape_chars (join ''&nbsp;'' ps) [''&nbsp;''] [] = concat ps"
    unfolding r using ok by (rule delete_nbsp_join)
  assume h: "html \<noteq> [] \<and> rt html = join ''&nbsp;'' ps"
  have "to_plain_text rt html = sub_newlines (sub_hspace (strip (delete_nbsp (rt html))))"
    using h by (simp only: to_plain_text_eq if_False)
  also have "delete_nbsp (rt html) = concat ps"
    using h delete_nbsp_join [OF ok] by simp
  finally show "to_plain_text rt html = sub_newlines (sub_hspace (strip (concat ps)))" .
qed

theorem to_plain_text_deletes_nbsp_witness:
  "list_all (\<lambda>p. \<not> py_in ''&nbsp;'' p) [''x'', ''y'', [], ''z'']
   \<and> join ''&nbsp;'' [''x'', ''y'', [], ''z''] = ''x&nbsp;y&nbsp;&nbsp;z''
   \<and> replace_escape_chars ''x&nbsp;y&nbsp;&nbsp;z'' [''&nbsp;''] [] = ''xyz''
   \<and> to_plain_text example_remove_tags ''x&nbsp;y&nbsp;&nbsp;z'' = ''xyz''"
proof -
  let ?ps = "[''x'', ''y'', [], ''z'']"
  have ok: "list_all (\<lambda>p. \<not> py_in ''&nbsp;'' p) ?ps"
    by simp
  have j: "join ''&nbsp;'' ?ps = ''x&nbsp;y&nbsp;&nbsp;z''"
    by simp
  have rt: "example_remove_tags ''x&nbsp;y&nbsp;&nbsp;z'' = ''x&nbsp;y&nbsp;&nbsp;z''"
    by (simp add: example_remove_tags_def)
  have h: "''x&nbsp;y&nbsp;&nbsp;z'' \<noteq> []
           \<and> example_remove_tags ''x&nbsp;y&nbsp;&nbsp;z'' = join ''&nbsp;'' ?ps"
    unfolding rt j by simp
  have n: "sub_newlines (sub_hspace (strip (concat ?ps))) = ''xyz''"
    by code_simp
  have a: "replace_escape_chars (join ''&nbsp;'' ?ps) [''&nbsp;''] [] = concat ?ps"
    and b: "to_plain_text example_remove_tags ''x&nbsp;y&nbsp;&nbsp;z''
              = sub_newlines (sub_hspace (strip (concat ?ps)))"
    using to_plain_text_deletes_nbsp [of "[]" ?ps "''x&nbsp;y&nbsp;&nbsp;z''" example_remove_tags]
      ok h by blast+
  have a': "replace_escape_chars ''x&nbsp;y&nbsp;&nbsp;z'' [''&nbsp;''] [] = ''xyz''"
    using a unfolding j by simp
  have b': "to_plain_text example_remove_tags ''x&nbsp;y&nbsp;&nbsp;z'' = ''xyz''"
    using b unfolding n .
  show ?thesis
    using ok j a' b' by blast
qed

text \<open>
  C7, an input whose \<^verbatim>\<open>&nbsp;\<close> is not replaced by a space, whatever \<^verbatim>\<open>remove_tags\<close>
  does to tags: \<^verbatim>\<open>a&nbsp;b\<close> is normalized to \<^verbatim>\<open>ab\<close>, not to \<^verbatim>\<open>a b\<close>.
\<close>

theorem to_plain_text_nbsp_no_space:
  "\<not> (\<exists>rt. leaves_plain_text rt \<and> to_plain_text rt ''a&nbsp;b'' = ''a b'')
   \<and> to_plain_text example_remove_tags ''a&nbsp;b'' = ''ab''"
proof -
  have "to_plain_text rt ''a&nbsp;b'' \<noteq> ''a b''" if "leaves_plain_text rt" for rt
    unfolding to_plain_text_a_b [OF that] by simp
  moreover have "to_plain_text example_remove_tags ''a&nbsp;b'' = ''ab''"
    by (rule to_plain_text_a_b [OF example_leaves_plain_text])
  ultimately show ?thesis
    by blast
qed

end
